theory Spec2Isabelle
  imports Complex_Main
begin

section \<open>JavaScript numbers\<close>

text \<open>
  A JavaScript \<^verbatim>\<open>number\<close> is an IEEE 754 double: a finite value, which is the rational
  it denotes, one of the two infinities, or \<^verbatim>\<open>NaN\<close>. The two zeros are identified; they
  differ in the code only as divisors, and \<^verbatim>\<open>updateProgress\<close> divides by a positive
  number only.
\<close>

datatype number = Finite rat | PlusInfinity | MinusInfinity | NaN

function bit_length :: "int \<Rightarrow> int" where
  "bit_length n = (if n \<le> 0 then 0 else 1 + bit_length (n div 2))"
  by pat_completeness auto
termination
  by (relation "measure nat") auto

declare bit_length.simps [simp del]

definition round_ties_even :: "rat \<Rightarrow> int" where
  "round_ties_even y =
     (let f = \<lfloor>y\<rfloor>; r = y - of_int f
      in if r < 1 / 2 then f else if 1 / 2 < r then f + 1 else if even f then f else f + 1)"

text \<open>The integer \<open>k\<close> with \<open>2 powi k \<le> x < 2 powi (k + 1)\<close>, for positive \<open>x\<close>.\<close>

definition exponent_of :: "rat \<Rightarrow> int" where
  "exponent_of x =
     (let (p, q) = quotient_of x; k = bit_length p - bit_length q
      in if 2 powi k \<le> x then k else k - 1)"

text \<open>
  Rounding to 53 significant bits, to the nearest, ties to the even significand, with
  the fixed exponent of the subnormal range below \<open>2 powi - 1022\<close> and no upper bound
  on the exponent.
\<close>

definition round_to_53_bits :: "rat \<Rightarrow> rat" where
  "round_to_53_bits x =
     (if x = 0 then 0
      else (let a = \<bar>x\<bar>;
                e = max (exponent_of a - 52) (- 1074);
                m = round_ties_even (a / 2 powi e)
            in sgn x * of_int m * 2 powi e))"

text \<open>
  The double nearest to an exact result: a result that rounds to \<open>2 powi 1024\<close> or
  beyond in magnitude, that is, to a value of exponent 1024 or more, overflows to an
  infinity.
\<close>

definition to_double :: "rat \<Rightarrow> number" where
  "to_double x =
     (let r = round_to_53_bits x
      in if r \<noteq> 0 \<and> 1024 \<le> exponent_of \<bar>r\<bar>
         then (if 0 < r then PlusInfinity else MinusInfinity)
         else Finite r)"

text \<open>An infinity with the sign of \<open>x\<close>; \<^verbatim>\<open>NaN\<close> when \<open>x\<close> is zero.\<close>

definition signed_infinity :: "rat \<Rightarrow> number" where
  "signed_infinity x = (if x = 0 then NaN else if 0 < x then PlusInfinity else MinusInfinity)"

fun js_div :: "number \<Rightarrow> number \<Rightarrow> number" where
  "js_div (Finite x) (Finite y) = (if y = 0 then signed_infinity x else to_double (x / y))"
| "js_div (Finite x) PlusInfinity = Finite 0"
| "js_div (Finite x) MinusInfinity = Finite 0"
| "js_div PlusInfinity (Finite y) = (if 0 \<le> y then PlusInfinity else MinusInfinity)"
| "js_div MinusInfinity (Finite y) = (if 0 \<le> y then MinusInfinity else PlusInfinity)"
| "js_div _ _ = NaN"

fun js_mul :: "number \<Rightarrow> number \<Rightarrow> number" where
  "js_mul (Finite x) (Finite y) = to_double (x * y)"
| "js_mul (Finite x) PlusInfinity = signed_infinity x"
| "js_mul (Finite x) MinusInfinity = signed_infinity (- x)"
| "js_mul PlusInfinity (Finite y) = signed_infinity y"
| "js_mul MinusInfinity (Finite y) = signed_infinity (- y)"
| "js_mul PlusInfinity PlusInfinity = PlusInfinity"
| "js_mul PlusInfinity MinusInfinity = MinusInfinity"
| "js_mul MinusInfinity PlusInfinity = MinusInfinity"
| "js_mul MinusInfinity MinusInfinity = PlusInfinity"
| "js_mul _ _ = NaN"

text \<open>\<^verbatim>\<open>Math.round\<close>: the nearest integer, a tie going up; an infinity and \<^verbatim>\<open>NaN\<close> stay.\<close>

fun Math_round :: "number \<Rightarrow> number" where
  "Math_round (Finite x) = Finite (of_int \<lfloor>x + 1 / 2\<rfloor>)"
| "Math_round v = v"

section \<open>Data model\<close>

text \<open>
  The entity shapes of \<^verbatim>\<open>types\<close>. A TypeScript optional field \<^verbatim>\<open>f?: T\<close> is a
  \<open>T option\<close>, \<open>None\<close> standing for \<^verbatim>\<open>undefined\<close> (and for SQL \<^verbatim>\<open>NULL\<close> in a row).
  The fields \<open>dueTime\<close>, \<open>isRecurring\<close> and \<open>lastCompletedAt\<close> are the ones that
  \<^verbatim>\<open>useTasks\<close> reads and writes in \<^verbatim>\<open>addTask\<close>, \<^verbatim>\<open>toggleTask\<close> and the daily reset.
  The field \<^verbatim>\<open>id\<close> is called \<open>task_id\<close> here, \<open>id\<close> being the identity function of HOL.
\<close>

datatype category = Today | Week | Backlog

datatype priority = Low | Medium | High

record task =
  task_id :: string
  title :: string
  completed :: bool
  category :: category
  priority :: priority
  createdAt :: string
  projectId :: "string option"
  dueDate :: "string option"
  dueTime :: "string option"
  isRecurring :: "bool option"
  lastCompletedAt :: "string option"
  order :: "int option"

datatype ProjectStatus = Active | OnHold | Completed

datatype ProjectColor = Slate | Sage | Amber | Rose

record project =
  proj_id :: string
  name :: string
  description :: string
  progress :: number
  totalTasks :: int
  completedTasks :: int
  color :: ProjectColor
  status :: ProjectStatus
  proj_createdAt :: string
  deadline :: "string option"
  tags :: "string list"

text \<open>
  \<^verbatim>\<open>Partial<Project>\<close>: a key that is absent is \<open>None\<close>. For the optional field
  \<^verbatim>\<open>deadline\<close> a present key may still carry \<^verbatim>\<open>undefined\<close>, hence the nested option.
  \<^verbatim>\<open>Partial<Task>\<close> is modelled the same way.
\<close>

record project_updates =
  upd_name :: "string option"
  upd_description :: "string option"
  upd_progress :: "number option"
  upd_totalTasks :: "int option"
  upd_completedTasks :: "int option"
  upd_color :: "ProjectColor option"
  upd_status :: "ProjectStatus option"
  upd_deadline :: "string option option"
  upd_tags :: "string list option"

record task_updates =
  upd_title :: "string option"
  upd_completed :: "bool option"
  upd_category :: "category option"
  upd_priority :: "priority option"
  upd_projectId :: "string option option"
  upd_dueDate :: "string option option"
  upd_dueTime :: "string option option"
  upd_isRecurring :: "bool option option"
  upd_lastCompletedAt :: "string option option"
  upd_order :: "int option option"

subsection \<open>JavaScript truthiness of optional values\<close>

definition truthy_str :: "string option \<Rightarrow> bool" where
  "truthy_str v = (case v of None \<Rightarrow> False | Some s \<Rightarrow> s \<noteq> [])"

definition truthy_bool :: "bool option \<Rightarrow> bool" where
  "truthy_bool v = (case v of None \<Rightarrow> False | Some b \<Rightarrow> b)"

text \<open>\<^verbatim>\<open>v || null\<close> on an optional string and \<^verbatim>\<open>v || 0\<close> on an optional number.\<close>

definition or_null :: "string option \<Rightarrow> string option" where
  "or_null v = (if truthy_str v then v else None)"

definition or_zero :: "int option \<Rightarrow> int" where
  "or_zero v = (case v of None \<Rightarrow> 0 | Some k \<Rightarrow> k)"

section \<open>Embedded relational store\<close>

text \<open>
  The rows of the tables made by \<^verbatim>\<open>createTables\<close>, one field per column, in column
  order. \<^verbatim>\<open>completed\<close> is an \<^verbatim>\<open>INTEGER\<close> column; the \<^verbatim>\<open>TEXT\<close> columns that hold an
  enumeration literal carry the enumeration; \<^verbatim>\<open>tags\<close> holds the JSON text of a string
  array, modelled by the array it encodes. There are no columns for \<^verbatim>\<open>dueTime\<close>,
  \<^verbatim>\<open>isRecurring\<close> or \<^verbatim>\<open>lastCompletedAt\<close>.
\<close>

record task_row =
  row_id :: string
  row_title :: string
  row_completed :: int
  row_category :: category
  row_priority :: priority
  created_at :: string
  project_id :: "string option"
  due_date :: "string option"
  task_order :: int

record project_row =
  prow_id :: string
  prow_name :: string
  prow_description :: string
  prow_progress :: number
  total_tasks :: int
  completed_tasks :: int
  prow_color :: ProjectColor
  prow_status :: ProjectStatus
  prow_created_at :: string
  prow_deadline :: "string option"
  prow_tags :: "string list"

record database =
  tasks_tbl :: "task_row list"
  projects_tbl :: "project_row list"

datatype error = DatabaseNotInitialized | UniqueConstraintFailed

text \<open>
  The module variable \<^verbatim>\<open>db: Database | null\<close> is a \<open>database option\<close> threaded through
  every repository call. \<^verbatim>\<open>saveDatabase\<close> exports the whole store after each statement
  and only logs a failure; it does not change the tables and is left out.
\<close>

definition createTables :: database where
  "createTables = \<lparr>tasks_tbl = [], projects_tbl = []\<rparr>"

definition getDatabase :: "database option \<Rightarrow> error + database" where
  "getDatabase db = (case db of None \<Rightarrow> Inl DatabaseNotInitialized | Some d \<Rightarrow> Inr d)"

definition isDatabaseInitialized :: "database option \<Rightarrow> bool" where
  "isDatabaseInitialized db = (db \<noteq> None)"

section \<open>Task repository\<close>

definition task_to_row :: "task \<Rightarrow> task_row" where
  "task_to_row t =
     \<lparr>row_id = task_id t,
      row_title = title t,
      row_completed = (if completed t then 1 else 0),
      row_category = category t,
      row_priority = priority t,
      created_at = createdAt t,
      project_id = or_null (projectId t),
      due_date = or_null (dueDate t),
      task_order = or_zero (order t)\<rparr>"

definition row_to_task :: "task_row \<Rightarrow> task" where
  "row_to_task r =
     \<lparr>task_id = row_id r,
      title = row_title r,
      completed = (row_completed r \<noteq> 0),
      category = row_category r,
      priority = row_priority r,
      createdAt = created_at r,
      projectId = project_id r,
      dueDate = due_date r,
      dueTime = None,
      isRecurring = None,
      lastCompletedAt = None,
      order = Some (task_order r)\<rparr>"

text \<open>
  \<^verbatim>\<open>SELECT * FROM tasks ORDER BY task_order ASC\<close>. SQL leaves the order of rows with
  equal keys open; the model keeps them in table order, and no theorem depends on it.
\<close>

definition taskRepo_getAllTasks :: "database option \<Rightarrow> error + task list" where
  "taskRepo_getAllTasks db =
     (case getDatabase db of
        Inl e \<Rightarrow> Inl e
      | Inr d \<Rightarrow>
          (let result = sort_key task_order (tasks_tbl d)
           in if length result = 0 then Inr [] else Inr (map row_to_task result)))"

definition taskRepo_getTasksByCategory :: "category \<Rightarrow> database option \<Rightarrow> error + task list" where
  "taskRepo_getTasksByCategory c db =
     (case getDatabase db of
        Inl e \<Rightarrow> Inl e
      | Inr d \<Rightarrow>
          Inr (map row_to_task
                 (sort_key task_order (filter (\<lambda>r. row_category r = c) (tasks_tbl d)))))"

text \<open>\<^verbatim>\<open>id TEXT PRIMARY KEY\<close>: an insert that repeats an id makes \<^verbatim>\<open>db.run\<close> throw.\<close>

definition taskRepo_insertTask :: "task \<Rightarrow> database option \<Rightarrow> error + database option" where
  "taskRepo_insertTask t db =
     (case getDatabase db of
        Inl e \<Rightarrow> Inl e
      | Inr d \<Rightarrow>
          if task_id t \<in> set (map row_id (tasks_tbl d)) then Inl UniqueConstraintFailed
          else Inr (Some (d\<lparr>tasks_tbl := tasks_tbl d @ [task_to_row t]\<rparr>)))"

definition taskRepo_updateTask :: "task \<Rightarrow> database option \<Rightarrow> error + database option" where
  "taskRepo_updateTask t db =
     (case getDatabase db of
        Inl e \<Rightarrow> Inl e
      | Inr d \<Rightarrow>
          Inr (Some (d\<lparr>tasks_tbl :=
            map (\<lambda>r. if row_id r = task_id t
                      then r\<lparr>row_title := title t,
                             row_completed := (if completed t then 1 else 0),
                             row_category := category t,
                             row_priority := priority t,
                             project_id := or_null (projectId t),
                             due_date := or_null (dueDate t),
                             task_order := or_zero (order t)\<rparr>
                      else r) (tasks_tbl d)\<rparr>)))"

definition taskRepo_deleteTask :: "string \<Rightarrow> database option \<Rightarrow> error + database option" where
  "taskRepo_deleteTask i db =
     (case getDatabase db of
        Inl e \<Rightarrow> Inl e
      | Inr d \<Rightarrow> Inr (Some (d\<lparr>tasks_tbl := filter (\<lambda>r. row_id r \<noteq> i) (tasks_tbl d)\<rparr>)))"

text \<open>SQL \<^verbatim>\<open>NOT\<close> on an integer: 0 becomes 1, anything else becomes 0.\<close>

definition sql_not :: "int \<Rightarrow> int" where
  "sql_not v = (if v = 0 then 1 else 0)"

text \<open>\<^verbatim>\<open>UPDATE tasks SET completed = NOT completed WHERE id = ?\<close>, as it acts on one row.\<close>

definition toggle_row :: "string \<Rightarrow> task_row \<Rightarrow> task_row" where
  "toggle_row i r = (if row_id r = i then r\<lparr>row_completed := sql_not (row_completed r)\<rparr> else r)"

definition taskRepo_toggleTask :: "string \<Rightarrow> database option \<Rightarrow> error + database option" where
  "taskRepo_toggleTask i db =
     (case getDatabase db of
        Inl e \<Rightarrow> Inl e
      | Inr d \<Rightarrow> Inr (Some (d\<lparr>tasks_tbl := map (toggle_row i) (tasks_tbl d)\<rparr>)))"

text \<open>
  \<^verbatim>\<open>orderedIds.forEach((id, index) => db.run('UPDATE tasks SET task_order = ? WHERE id = ?'))\<close>:
  one statement per id, in list order, the index counting from the first argument.
\<close>

fun run_order_updates :: "nat \<Rightarrow> string list \<Rightarrow> task_row list \<Rightarrow> task_row list" where
  "run_order_updates index [] rows = rows"
| "run_order_updates index (i # ids) rows =
     run_order_updates (Suc index) ids
       (map (\<lambda>r. if row_id r = i then r\<lparr>task_order := int index\<rparr> else r) rows)"

definition taskRepo_updateTaskOrder ::
  "category \<Rightarrow> string list \<Rightarrow> database option \<Rightarrow> error + database option" where
  "taskRepo_updateTaskOrder unused_category orderedIds db =
     (case getDatabase db of
        Inl e \<Rightarrow> Inl e
      | Inr d \<Rightarrow> Inr (Some (d\<lparr>tasks_tbl := run_order_updates 0 orderedIds (tasks_tbl d)\<rparr>)))"

section \<open>Project repository\<close>

definition projectRepo_updateProject ::
  "project \<Rightarrow> database option \<Rightarrow> error + database option" where
  "projectRepo_updateProject p db =
     (case getDatabase db of
        Inl e \<Rightarrow> Inl e
      | Inr d \<Rightarrow>
          Inr (Some (d\<lparr>projects_tbl :=
            map (\<lambda>r. if prow_id r = proj_id p
                      then r\<lparr>prow_name := name p,
                             prow_description := description p,
                             prow_progress := progress p,
                             total_tasks := totalTasks p,
                             completed_tasks := completedTasks p,
                             prow_color := color p,
                             prow_status := status p,
                             prow_deadline := or_null (deadline p),
                             prow_tags := tags p\<rparr>
                      else r) (projects_tbl d)\<rparr>)))"

section \<open>Task state manager\<close>

text \<open>
  The state of the hook \<^verbatim>\<open>useTasks\<close> that works over both backends: the readiness
  signal of the database provider, the database singleton, the value kept by
  \<^verbatim>\<open>useLocalStorage('lumina-tasks')\<close> together with the copy it writes to
  \<^verbatim>\<open>localStorage\<close>, the collection loaded from the relational store, and the backend flag.
\<close>

record task_state =
  dbReady :: bool
  db :: "database option"
  localTasks :: "task list"
  stored_tasks :: "task list"
  dbTasks :: "task list"
  useDb :: bool

text \<open>\<^verbatim>\<open>const tasks = useDb ? dbTasks : localTasks\<close>\<close>

definition tasks :: "task_state \<Rightarrow> task list" where
  "tasks s = (if useDb s then dbTasks s else localTasks s)"

text \<open>
  A call of the hook is a render: it reads the state and returns callbacks that keep the
  values of that render, while React's setters and the module variable \<^verbatim>\<open>db\<close> act on
  the current state. Below, \<open>r\<close> is the state that the render read and \<open>s\<close> the state
  at the time of the call; a callback of the latest render is called with \<open>r = s\<close>.

  \<^verbatim>\<open>setValue\<close> of \<^verbatim>\<open>useLocalStorage\<close> applies the updater to the \<^verbatim>\<open>storedValue\<close> of its
  render; the result becomes the state and is written to \<^verbatim>\<open>localStorage\<close> (a failing
  write is caught and logged there; the model takes the write to succeed).
\<close>

definition setLocalTasks ::
  "task_state \<Rightarrow> (task list \<Rightarrow> task list) \<Rightarrow> task_state \<Rightarrow> task_state" where
  "setLocalTasks r updater s =
     (let valueToStore = updater (localTasks r)
      in s\<lparr>localTasks := valueToStore, stored_tasks := valueToStore\<rparr>)"

text \<open>
  \<^verbatim>\<open>const setTasks = useDb ? (updater) => setDbTasks(updater(dbTasks)) : setLocalTasks\<close>,
  with \<^verbatim>\<open>useDb\<close> and \<^verbatim>\<open>dbTasks\<close> of the render. In relational mode it changes the
  in-memory collection only.
\<close>

definition setTasks ::
  "task_state \<Rightarrow> (task list \<Rightarrow> task list) \<Rightarrow> task_state \<Rightarrow> task_state" where
  "setTasks r updater s =
     (if useDb r then s\<lparr>dbTasks := updater (dbTasks r)\<rparr> else setLocalTasks r updater s)"

text \<open>
  \<^verbatim>\<open>try { repository call } catch (error) { console.error(...) }\<close>: a repository error
  leaves the store as it was and is not passed on.
\<close>

definition try_repo :: "(database option \<Rightarrow> error + database option) \<Rightarrow> task_state \<Rightarrow> task_state" where
  "try_repo call s = (case call (db s) of Inl e \<Rightarrow> s | Inr d \<Rightarrow> s\<lparr>db := d\<rparr>)"

subsection \<open>Load and migration effect\<close>

text \<open>
  \<^verbatim>\<open>localTasks.forEach(task => taskRepo.insertTask(task))\<close> inside the \<^verbatim>\<open>try\<close>: the
  first insert that throws ends the loop, the rows inserted before it stay.
\<close>

fun insert_each :: "task list \<Rightarrow> database option \<Rightarrow> error option \<times> database option" where
  "insert_each [] d = (None, d)"
| "insert_each (t # ts) d =
     (case taskRepo_insertTask t d of
        Inl e \<Rightarrow> (Some e, d)
      | Inr d' \<Rightarrow> insert_each ts d')"

definition load_effect :: "task_state \<Rightarrow> task_state" where
  "load_effect s =
     (if dbReady s \<and> isDatabaseInitialized (db s) then
        (case taskRepo_getAllTasks (db s) of
           Inl e \<Rightarrow> s\<lparr>useDb := False\<rparr>
         | Inr ts \<Rightarrow>
             if length ts > 0 then s\<lparr>dbTasks := ts, useDb := True\<rparr>
             else if length (localTasks s) > 0 then
               (case insert_each (localTasks s) (db s) of
                  (Some e, d) \<Rightarrow> s\<lparr>db := d, useDb := False\<rparr>
                | (None, d) \<Rightarrow> s\<lparr>db := d, dbTasks := localTasks s, useDb := True\<rparr>)
             else s\<lparr>useDb := True\<rparr>)
      else s)"

subsection \<open>Daily reset of recurring tasks\<close>

text \<open>
  The effect of a render, run in the state that the render read.
  \<open>toDateString\<close> stands for \<^verbatim>\<open>s => new Date(s).toDateString()\<close>, the local calendar
  day of a timestamp, and \<open>today\<close> for \<^verbatim>\<open>new Date().toDateString()\<close>.
\<close>

definition needs_reset :: "(string \<Rightarrow> string) \<Rightarrow> string \<Rightarrow> task \<Rightarrow> bool" where
  "needs_reset toDateString today t =
     (if \<not> truthy_bool (isRecurring t) \<or> \<not> completed t then False
      else if \<not> truthy_str (lastCompletedAt t) then True
      else (case lastCompletedAt t of
              None \<Rightarrow> True
            | Some stamp \<Rightarrow> toDateString stamp \<noteq> today))"

text \<open>\<^verbatim>\<open>tasksToReset.find(t => t.id === task.id) ? { ...task, completed: false } : task\<close>\<close>

definition reset_one :: "task list \<Rightarrow> task \<Rightarrow> task" where
  "reset_one tasksToReset t =
     (if find (\<lambda>r. task_id r = task_id t) tasksToReset \<noteq> None
      then t\<lparr>completed := False\<rparr> else t)"

definition reset_effect :: "(string \<Rightarrow> string) \<Rightarrow> string \<Rightarrow> task_state \<Rightarrow> task_state" where
  "reset_effect toDateString today s =
     (let tasksToReset = filter (needs_reset toDateString today) (tasks s)
      in if length tasksToReset > 0 then setTasks s (map (reset_one tasksToReset)) s
         else s)"

subsection \<open>Operations\<close>

text \<open>
  Every operation returns \<open>error + task_state\<close>: \<open>Inl\<close> would be an exception reaching
  the caller. \<open>now\<close> stands for \<^verbatim>\<open>new Date().toISOString()\<close> at the call. An
  operation \<open>f_of r\<close> is the callback \<open>f\<close> of the render \<open>r\<close>.
\<close>

definition toggle_one :: "string \<Rightarrow> string \<Rightarrow> task \<Rightarrow> task" where
  "toggle_one now i t =
     (if task_id t \<noteq> i then t
      else (let nowCompleted = \<not> completed t
            in t\<lparr>completed := nowCompleted,
                 lastCompletedAt :=
                   (if truthy_bool (isRecurring t) \<and> nowCompleted then Some now
                    else lastCompletedAt t)\<rparr>))"

definition toggleTask_of ::
  "task_state \<Rightarrow> string \<Rightarrow> string \<Rightarrow> task_state \<Rightarrow> error + task_state" where
  "toggleTask_of r now i s =
     (let s1 = (if useDb r then try_repo (taskRepo_toggleTask i) s else s)
      in Inr (setTasks r (map (toggle_one now i)) s1))"

definition deleteTask_of :: "task_state \<Rightarrow> string \<Rightarrow> task_state \<Rightarrow> error + task_state" where
  "deleteTask_of r i s =
     (let s1 = (if useDb r then try_repo (taskRepo_deleteTask i) s else s)
      in Inr (setTasks r (filter (\<lambda>t. task_id t \<noteq> i)) s1))"

text \<open>\<^verbatim>\<open>{ ...task, ...updates }\<close>\<close>

definition merge_task :: "task \<Rightarrow> task_updates \<Rightarrow> task" where
  "merge_task t u =
     t\<lparr>title := (case upd_title u of None \<Rightarrow> title t | Some v \<Rightarrow> v),
       completed := (case upd_completed u of None \<Rightarrow> completed t | Some v \<Rightarrow> v),
       category := (case upd_category u of None \<Rightarrow> category t | Some v \<Rightarrow> v),
       priority := (case upd_priority u of None \<Rightarrow> priority t | Some v \<Rightarrow> v),
       projectId := (case upd_projectId u of None \<Rightarrow> projectId t | Some v \<Rightarrow> v),
       dueDate := (case upd_dueDate u of None \<Rightarrow> dueDate t | Some v \<Rightarrow> v),
       dueTime := (case upd_dueTime u of None \<Rightarrow> dueTime t | Some v \<Rightarrow> v),
       isRecurring := (case upd_isRecurring u of None \<Rightarrow> isRecurring t | Some v \<Rightarrow> v),
       lastCompletedAt :=
         (case upd_lastCompletedAt u of None \<Rightarrow> lastCompletedAt t | Some v \<Rightarrow> v),
       order := (case upd_order u of None \<Rightarrow> order t | Some v \<Rightarrow> v)\<rparr>"

definition updateTask_of ::
  "task_state \<Rightarrow> string \<Rightarrow> task_updates \<Rightarrow> task_state \<Rightarrow> error + task_state" where
  "updateTask_of r i updates s =
     (let updated = map (\<lambda>t. if task_id t = i then merge_task t updates else t) (tasks r);
          s1 = (if useDb r then
                  (case find (\<lambda>t. task_id t = i) updated of
                     None \<Rightarrow> s
                   | Some updatedTask \<Rightarrow> try_repo (taskRepo_updateTask updatedTask) s)
                else s)
      in Inr (setTasks r (\<lambda>prev. updated) s1))"

definition reorderTasks_of ::
  "task_state \<Rightarrow> category \<Rightarrow> task list \<Rightarrow> task_state \<Rightarrow> error + task_state" where
  "reorderTasks_of r c reorderedTasks s =
     (let s1 = (if useDb r
                then try_repo (taskRepo_updateTaskOrder c (map task_id reorderedTasks)) s
                else s)
      in Inr (setTasks r
                (\<lambda>prev. filter (\<lambda>t. category t \<noteq> c) prev @
                          map (\<lambda>(index, t). t\<lparr>order := Some (int index)\<rparr>)
                            (enumerate 0 reorderedTasks)) s1))"

text \<open>
  The operations as the user interface calls them: one call per event, from the
  callbacks of the latest render.
\<close>

definition toggleTask :: "string \<Rightarrow> string \<Rightarrow> task_state \<Rightarrow> error + task_state" where
  "toggleTask now i s = toggleTask_of s now i s"

definition deleteTask :: "string \<Rightarrow> task_state \<Rightarrow> error + task_state" where
  "deleteTask i s = deleteTask_of s i s"

definition updateTask :: "string \<Rightarrow> task_updates \<Rightarrow> task_state \<Rightarrow> error + task_state" where
  "updateTask i updates s = updateTask_of s i updates s"

definition reorderTasks :: "category \<Rightarrow> task list \<Rightarrow> task_state \<Rightarrow> error + task_state" where
  "reorderTasks c reorderedTasks s = reorderTasks_of s c reorderedTasks s"

section \<open>Project state manager\<close>

text \<open>
  The hook \<^verbatim>\<open>useProjectsDB\<close>: the in-memory collection and the database singleton.
  Its \<^verbatim>\<open>updateProject\<close> calls the repository with no \<^verbatim>\<open>try\<close> around it, so a
  repository error reaches the caller and the collection stays as it was.
\<close>

record project_state =
  proj_db :: "database option"
  projects :: "project list"

text \<open>\<^verbatim>\<open>{ ...project, ...updates }\<close>\<close>

definition merge_project :: "project \<Rightarrow> project_updates \<Rightarrow> project" where
  "merge_project p u =
     p\<lparr>name := (case upd_name u of None \<Rightarrow> name p | Some v \<Rightarrow> v),
       description := (case upd_description u of None \<Rightarrow> description p | Some v \<Rightarrow> v),
       progress := (case upd_progress u of None \<Rightarrow> progress p | Some v \<Rightarrow> v),
       totalTasks := (case upd_totalTasks u of None \<Rightarrow> totalTasks p | Some v \<Rightarrow> v),
       completedTasks :=
         (case upd_completedTasks u of None \<Rightarrow> completedTasks p | Some v \<Rightarrow> v),
       color := (case upd_color u of None \<Rightarrow> color p | Some v \<Rightarrow> v),
       status := (case upd_status u of None \<Rightarrow> status p | Some v \<Rightarrow> v),
       deadline := (case upd_deadline u of None \<Rightarrow> deadline p | Some v \<Rightarrow> v),
       tags := (case upd_tags u of None \<Rightarrow> tags p | Some v \<Rightarrow> v)\<rparr>"

definition updateProject ::
  "string \<Rightarrow> project_updates \<Rightarrow> project_state \<Rightarrow> error + project_state" where
  "updateProject i updates s =
     (let updated = map (\<lambda>p. if proj_id p = i then merge_project p updates else p) (projects s)
      in case find (\<lambda>p. proj_id p = i) updated of
           None \<Rightarrow> Inr (s\<lparr>projects := updated\<rparr>)
         | Some updatedProject \<Rightarrow>
             (case projectRepo_updateProject updatedProject (proj_db s) of
                Inl e \<Rightarrow> Inl e
              | Inr d \<Rightarrow> Inr (s\<lparr>proj_db := d, projects := updated\<rparr>)))"

text \<open>The counts are integer-valued numbers.\<close>

definition updateProgress :: "string \<Rightarrow> int \<Rightarrow> int \<Rightarrow> project_state \<Rightarrow> error + project_state" where
  "updateProgress i completedCount totalCount s =
     (let progress' = (if totalCount > 0
                       then Math_round
                              (js_mul (js_div (Finite (of_int completedCount))
                                              (Finite (of_int totalCount)))
                                      (Finite 100))
                       else Finite 0);
          status' = (if progress' = Finite 100 then Completed else Active)
      in updateProject i
           \<lparr>upd_name = None, upd_description = None, upd_progress = Some progress',
            upd_totalTasks = Some totalCount, upd_completedTasks = Some completedCount,
            upd_color = None, upd_status = Some status', upd_deadline = None,
            upd_tags = None\<rparr> s)"

text \<open>The \<^verbatim>\<open>progress\<close> expression of \<open>updateProgress\<close>, on its own.\<close>

definition computed_progress :: "int \<Rightarrow> int \<Rightarrow> number" where
  "computed_progress c t =
     (if 0 < t
      then Math_round (js_mul (js_div (Finite (of_int c)) (Finite (of_int t))) (Finite 100))
      else Finite 0)"

section \<open>Order density\<close>

text \<open>
  The order values of a category form the dense sequence \<open>0, \<dots>, n - 1\<close>, \<open>n\<close> being
  the number of entities in the category: for the rows of the \<^verbatim>\<open>tasks\<close> table and for
  the in-memory collection.
\<close>

definition dense_rows :: "category \<Rightarrow> task_row list \<Rightarrow> bool" where
  "dense_rows c rows =
     (let orders = map task_order (filter (\<lambda>r. row_category r = c) rows)
      in set orders = {0..<int (length orders)})"

definition dense_tasks :: "category \<Rightarrow> task list \<Rightarrow> bool" where
  "dense_tasks c ts =
     (let orders = map order (filter (\<lambda>t. category t = c) ts)
      in set orders = Some ` {0..<int (length orders)})"

text \<open>What the statements of \<open>run_order_updates\<close> do to one row.\<close>

fun order_updates_on :: "nat \<Rightarrow> string list \<Rightarrow> task_row \<Rightarrow> task_row" where
  "order_updates_on index [] r = r"
| "order_updates_on index (i # ids) r =
     order_updates_on (Suc index) ids (if row_id r = i then r\<lparr>task_order := int index\<rparr> else r)"

section \<open>Example values\<close>

text \<open>Concrete tasks and states at which the theorems below are instantiated.\<close>

definition milk :: task where
  "milk = \<lparr>task_id = ''task_1'', title = ''Buy milk'', completed = False, category = Today,
            priority = Medium, createdAt = ''2026-01-04T09:00:00.000Z'', projectId = None,
            dueDate = None, dueTime = None, isRecurring = None, lastCompletedAt = None,
            order = Some 0\<rparr>"

definition eggs :: task where
  "eggs = \<lparr>task_id = ''task_2'', title = ''Buy eggs'', completed = False, category = Today,
            priority = Medium, createdAt = ''2026-01-04T09:05:00.000Z'', projectId = None,
            dueDate = None, dueTime = None, isRecurring = None, lastCompletedAt = None,
            order = Some 1\<rparr>"

definition stretch :: task where
  "stretch = \<lparr>task_id = ''task_3'', title = ''Stretch'', completed = True, category = Today,
               priority = Low, createdAt = ''2026-01-02T07:00:00.000Z'', projectId = None,
               dueDate = None, dueTime = Some ''07:30'', isRecurring = Some True,
               lastCompletedAt = Some ''2026-01-03T07:31:00.000Z'', order = Some 0\<rparr>"

definition plan :: task where
  "plan = \<lparr>task_id = ''task_4'', title = ''Plan the week'', completed = False, category = Week,
            priority = High, createdAt = ''2026-01-03T18:00:00.000Z'', projectId = Some ''demo-3'',
            dueDate = Some ''2026-01-09'', dueTime = None, isRecurring = None,
            lastCompletedAt = None, order = Some 0\<rparr>"

definition audit :: project where
  "audit = \<lparr>proj_id = ''demo-3'', name = ''Performance Audit'',
             description = ''Analyze and optimize application performance.'',
             progress = Finite 0,
             totalTasks = 8, completedTasks = 0, color = Amber, status = OnHold,
             proj_createdAt = ''2025-12-28T09:00:00Z'', deadline = None,
             tags = [''performance'', ''optimization'']\<rparr>"

definition audit_row :: project_row where
  "audit_row = \<lparr>prow_id = ''demo-3'', prow_name = ''Performance Audit'',
                 prow_description = ''Analyze and optimize application performance.'',
                 prow_progress = Finite 0, total_tasks = 8, completed_tasks = 0, prow_color = Amber,
                 prow_status = OnHold, prow_created_at = ''2025-12-28T09:00:00Z'',
                 prow_deadline = None, prow_tags = [''performance'', ''optimization'']\<rparr>"

definition audit_state :: project_state where
  "audit_state = \<lparr>proj_db = Some \<lparr>tasks_tbl = [], projects_tbl = [audit_row]\<rparr>,
                   projects = [audit]\<rparr>"

definition local_state :: "task list \<Rightarrow> task_state" where
  "local_state ts = \<lparr>dbReady = False, db = None, localTasks = ts, stored_tasks = ts,
                      dbTasks = [], useDb = False\<rparr>"

definition ready_state :: "task list \<Rightarrow> task_state" where
  "ready_state ts = \<lparr>dbReady = True, db = Some createTables, localTasks = ts,
                      stored_tasks = ts, dbTasks = [], useDb = False\<rparr>"

definition relational_state :: "task list \<Rightarrow> task_state" where
  "relational_state ts =
     \<lparr>dbReady = True,
      db = Some \<lparr>tasks_tbl = map task_to_row ts, projects_tbl = []\<rparr>,
      localTasks = [], stored_tasks = [], dbTasks = ts, useDb = True\<rparr>"

text \<open>A clock for the examples: the first ten characters of an ISO timestamp.\<close>

definition day_of :: "string \<Rightarrow> string" where
  "day_of stamp = take 10 stamp"

section \<open>Properties\<close>

subsection \<open>State plumbing\<close>

lemma tasks_setTasks: "useDb s = useDb r \<Longrightarrow> tasks (setTasks r f s) = f (tasks r)"
  by (simp add: tasks_def setTasks_def setLocalTasks_def Let_def)


lemma db_setTasks: "db (setTasks r f s) = db s"
  by (simp add: setTasks_def setLocalTasks_def Let_def)

lemma tasks_try_repo: "tasks (try_repo c s) = tasks s"
  by (simp add: tasks_def try_repo_def split: sum.splits)

lemma useDb_try_repo: "useDb (try_repo c s) = useDb s"
  by (simp add: try_repo_def split: sum.splits)

lemma tasks_setTasks_same: "tasks (setTasks s f s) = f (tasks s)"
  by (simp add: tasks_setTasks)

lemma tasks_setTasks_try_repo: "tasks (setTasks s f (try_repo c s)) = f (tasks s)"
  by (simp add: tasks_setTasks useDb_try_repo)

lemma getAllTasks_Some:
  "taskRepo_getAllTasks (Some d) = Inr (map row_to_task (sort_key task_order (tasks_tbl d)))"
  by (simp add: taskRepo_getAllTasks_def getDatabase_def Let_def)

lemma insertTask_Some:
  "taskRepo_insertTask t (Some d) =
     (if task_id t \<in> set (map row_id (tasks_tbl d)) then Inl UniqueConstraintFailed
      else Inr (Some (d\<lparr>tasks_tbl := tasks_tbl d @ [task_to_row t]\<rparr>)))"
  by (simp add: taskRepo_insertTask_def getDatabase_def)

lemma row_id_task_to_row [simp]: "row_id (task_to_row t) = task_id t"
  by (simp add: task_to_row_def)

subsection \<open>Toggling a task\<close>

lemma tasks_toggleTask:
  "toggleTask now i s = Inr s' \<Longrightarrow> tasks s' = map (toggle_one now i) (tasks s)"
  by (auto simp: toggleTask_def toggleTask_of_def Let_def tasks_setTasks_same tasks_setTasks_try_repo tasks_try_repo)

text \<open>
  C8. For a task of the collection with the given id, \<open>toggleTask\<close> returns without an
  error and flips \<open>completed\<close>; when the task is recurring and becomes completed,
  \<open>lastCompletedAt\<close> is the timestamp of the call; when it becomes incomplete,
  \<open>lastCompletedAt\<close> keeps its value.
\<close>

theorem toggle_flips_and_stamps:
  assumes "k < length (tasks s)" and "task_id (tasks s ! k) = i"
  shows "\<exists>s'. toggleTask now i s = Inr s'
           \<and> length (tasks s') = length (tasks s)
           \<and> completed (tasks s' ! k) = (\<not> completed (tasks s ! k))
           \<and> (truthy_bool (isRecurring (tasks s ! k)) \<and> \<not> completed (tasks s ! k)
                \<longrightarrow> lastCompletedAt (tasks s' ! k) = Some now)
           \<and> (completed (tasks s ! k)
                \<longrightarrow> lastCompletedAt (tasks s' ! k) = lastCompletedAt (tasks s ! k))"
proof -
  obtain s' where s': "toggleTask now i s = Inr s'"
    by (simp add: toggleTask_def toggleTask_of_def Let_def)
  have ts: "tasks s' = map (toggle_one now i) (tasks s)"
    using s' by (rule tasks_toggleTask)
  have "tasks s' ! k = toggle_one now i (tasks s ! k)"
    using assms(1) by (simp add: ts)
  then show ?thesis
    using s' assms by (simp add: ts toggle_one_def Let_def)
qed

theorem toggle_flips_and_stamps_witness:
  "0 < length (tasks (local_state [stretch\<lparr>completed := False\<rparr>]))
   \<and> task_id (tasks (local_state [stretch\<lparr>completed := False\<rparr>]) ! 0) = ''task_3''
   \<and> (\<exists>s'. toggleTask ''2026-01-04T07:29:00.000Z'' ''task_3''
               (local_state [stretch\<lparr>completed := False\<rparr>]) = Inr s'
           \<and> completed (tasks s' ! 0)
           \<and> lastCompletedAt (tasks s' ! 0) = Some ''2026-01-04T07:29:00.000Z'')"
proof -
  let ?s = "local_state [stretch\<lparr>completed := False\<rparr>]"
  have h1: "0 < length (tasks ?s)"
    by (simp add: tasks_def local_state_def)
  have h2: "task_id (tasks ?s ! 0) = ''task_3''"
    by (simp add: tasks_def local_state_def stretch_def)
  have r: "truthy_bool (isRecurring (tasks ?s ! 0)) \<and> \<not> completed (tasks ?s ! 0)"
    by (simp add: tasks_def local_state_def stretch_def truthy_bool_def)
  from toggle_flips_and_stamps [OF h1 h2, of "''2026-01-04T07:29:00.000Z''"] r h1 h2
  show ?thesis by auto
qed












subsection \<open>Update and removal of an unknown id\<close>

lemma tasks_updateTask_unknown:
  assumes "i \<notin> task_id ` set (tasks s)"
  shows "updateTask i u s = Inr s' \<Longrightarrow> tasks s' = tasks s"
proof -
  assume a: "updateTask i u s = Inr s'"
  have m: "map (\<lambda>t. if task_id t = i then merge_task t u else t) (tasks s) = tasks s"
    using assms by (intro map_idI) auto
  show ?thesis
    using a by (auto simp: updateTask_def updateTask_of_def Let_def m tasks_setTasks_same tasks_setTasks_try_repo tasks_try_repo
        split: option.splits if_splits)
qed

text \<open>
  C9. For an id that no task of the collection has, \<open>updateTask\<close> and \<open>deleteTask\<close>
  return without an error and leave the in-memory collection as it was.
\<close>

theorem unknown_id_is_noop:
  assumes "i \<notin> task_id ` set (tasks s)"
  shows "(\<exists>s'. updateTask i u s = Inr s' \<and> tasks s' = tasks s)
       \<and> (\<exists>s'. deleteTask i s = Inr s' \<and> tasks s' = tasks s)"
proof -
  obtain s1 where s1: "updateTask i u s = Inr s1"
    by (simp add: updateTask_def updateTask_of_def Let_def)
  obtain s2 where s2: "deleteTask i s = Inr s2"
    by (simp add: deleteTask_def deleteTask_of_def Let_def)
  have f: "filter (\<lambda>t. task_id t \<noteq> i) (tasks s) = tasks s"
    using assms by (intro filter_True) auto
  have "tasks s2 = tasks s"
    using s2 by (auto simp: deleteTask_def deleteTask_of_def Let_def tasks_setTasks_same tasks_setTasks_try_repo tasks_try_repo f)
  with s1 s2 tasks_updateTask_unknown [OF assms s1] show ?thesis by simp
qed

theorem unknown_id_is_noop_witness:
  "''task_9'' \<notin> task_id ` set (tasks (relational_state [milk, eggs]))
   \<and> (\<exists>s'. updateTask ''task_9'' \<lparr>upd_title = Some ''Buy bread'', upd_completed = None,
               upd_category = None, upd_priority = None, upd_projectId = None, upd_dueDate = None,
               upd_dueTime = None, upd_isRecurring = None, upd_lastCompletedAt = None,
               upd_order = None\<rparr> (relational_state [milk, eggs]) = Inr s' \<and> tasks s' = [milk, eggs])
   \<and> (\<exists>s'. deleteTask ''task_9'' (relational_state [milk, eggs]) = Inr s' \<and> tasks s' = [milk, eggs])"
proof -
  let ?s = "relational_state [milk, eggs]"
  have t: "tasks ?s = [milk, eggs]"
    by (simp add: tasks_def relational_state_def)
  have h: "''task_9'' \<notin> task_id ` set (tasks ?s)"
    unfolding t by (simp add: milk_def eggs_def)
  from unknown_id_is_noop [OF h] h show ?thesis
    by (simp add: t)
qed

subsection \<open>Daily reset of recurring tasks\<close>

lemma no_reset_after_reset:
  "filter (needs_reset d today) (map (reset_one (filter (needs_reset d today) ts)) ts) = []"
proof -
  have "\<not> needs_reset d today (reset_one (filter (needs_reset d today) ts) t)"
    if "t \<in> set ts" for t
  proof (cases "find (\<lambda>r. task_id r = task_id t) (filter (needs_reset d today) ts) = None")
    case True
    then have "\<not> needs_reset d today t"
      using that by (auto simp: find_None_iff)
    with True show ?thesis by (simp add: reset_one_def)
  next
    case False
    then show ?thesis by (simp add: reset_one_def needs_reset_def)
  qed
  then show ?thesis
    unfolding filter_empty_conv set_map by blast
qed

text \<open>
  C6. Running the daily reset twice with the same value of today gives the state that
  the first run gave: the second run changes nothing.
\<close>

theorem reset_effect_idempotent:
  "reset_effect d today (reset_effect d today s) = reset_effect d today s"
proof (cases "filter (needs_reset d today) (tasks s) = []")
  case True
  then show ?thesis by (simp add: reset_effect_def Let_def)
next
  case False
  then have "filter (needs_reset d today) (tasks (reset_effect d today s)) = []"
    by (simp add: reset_effect_def Let_def tasks_setTasks_same tasks_setTasks_try_repo no_reset_after_reset)
  then show ?thesis
    by (simp add: reset_effect_def [of d today "reset_effect d today s"] Let_def)
qed

theorem reset_effect_idempotent_witness:
  "tasks (reset_effect day_of ''2026-01-04'' (local_state [milk, stretch]))
     = [milk, stretch\<lparr>completed := False\<rparr>]
   \<and> reset_effect day_of ''2026-01-04''
        (reset_effect day_of ''2026-01-04'' (local_state [milk, stretch]))
     = reset_effect day_of ''2026-01-04'' (local_state [milk, stretch])"
proof -
  have "tasks (reset_effect day_of ''2026-01-04'' (local_state [milk, stretch]))
     = [milk, stretch\<lparr>completed := False\<rparr>]"
    by (simp add: reset_effect_def Let_def tasks_def local_state_def setTasks_def
        setLocalTasks_def needs_reset_def reset_one_def milk_def stretch_def truthy_bool_def
        truthy_str_def day_of_def)
  with reset_effect_idempotent [of day_of "''2026-01-04''" "local_state [milk, stretch]"]
  show ?thesis by simp
qed

lemma db_reset_effect: "db (reset_effect d today s) = db s"
  by (simp add: reset_effect_def Let_def db_setTasks)

lemma find_needs_reset:
  "t \<in> set ts \<Longrightarrow> needs_reset d today t \<Longrightarrow>
     find (\<lambda>r. task_id r = task_id t) (filter (needs_reset d today) ts) \<noteq> None"
  by (auto simp: find_None_iff)

lemma reset_effect_resets:
  assumes "k < length (tasks s)" and "needs_reset d today (tasks s ! k)"
  shows "length (tasks (reset_effect d today s)) = length (tasks s)
       \<and> tasks (reset_effect d today s) ! k = (tasks s ! k)\<lparr>completed := False\<rparr>"
proof -
  let ?r = "filter (needs_reset d today) (tasks s)"
  have "tasks s ! k \<in> set (tasks s)"
    using assms(1) by simp
  then have f: "find (\<lambda>r. task_id r = task_id (tasks s ! k)) ?r \<noteq> None"
    using assms(2) by (rule find_needs_reset)
  then have "?r \<noteq> []" by auto
  then have "tasks (reset_effect d today s) = map (reset_one ?r) (tasks s)"
    by (simp add: reset_effect_def Let_def tasks_setTasks_same tasks_setTasks_try_repo)
  then show ?thesis
    using assms(1) f by (simp add: reset_one_def)
qed

text \<open>
  C2 fails on the code in relational mode. The reset sets \<open>completed\<close> to false in
  memory (\<open>reset_effect_resets\<close>), but it goes through \<open>setTasks\<close> alone and never
  calls the repository (\<open>db_reset_effect\<close>): for the recurring task \<open>stretch\<close>,
  completed the day before, the row in the \<^verbatim>\<open>tasks\<close> table still has \<open>completed = 1\<close>
  after the reset. In local mode the same reset is written to the durable store.
\<close>

theorem reset_not_written_to_relational_store:
  "tasks (reset_effect day_of ''2026-01-04'' (relational_state [stretch]))
     = [stretch\<lparr>completed := False\<rparr>]
   \<and> db (reset_effect day_of ''2026-01-04'' (relational_state [stretch]))
     = Some \<lparr>tasks_tbl = [task_to_row stretch], projects_tbl = []\<rparr>
   \<and> row_completed (task_to_row stretch) = 1
   \<and> stored_tasks (reset_effect day_of ''2026-01-04'' (local_state [stretch]))
     = [stretch\<lparr>completed := False\<rparr>]"
proof -
  have n: "needs_reset day_of ''2026-01-04'' stretch"
    by (simp add: needs_reset_def stretch_def truthy_bool_def truthy_str_def day_of_def)
  have a: "tasks (reset_effect day_of ''2026-01-04'' (relational_state [stretch]))
     = [stretch\<lparr>completed := False\<rparr>]"
    using n by (simp add: reset_effect_def Let_def tasks_setTasks_same tasks_setTasks_try_repo reset_one_def)
      (simp add: tasks_def relational_state_def reset_one_def n)
  have b: "db (reset_effect day_of ''2026-01-04'' (relational_state [stretch]))
     = Some \<lparr>tasks_tbl = [task_to_row stretch], projects_tbl = []\<rparr>"
    by (simp add: db_reset_effect) (simp add: relational_state_def)
  have c: "row_completed (task_to_row stretch) = 1"
    by (simp add: task_to_row_def stretch_def)
  have d: "stored_tasks (reset_effect day_of ''2026-01-04'' (local_state [stretch]))
     = [stretch\<lparr>completed := False\<rparr>]"
    using n by (simp add: reset_effect_def Let_def tasks_def local_state_def setTasks_def
        setLocalTasks_def reset_one_def)
  from a b c d show ?thesis by blast
qed

subsection \<open>Rounding of the progress expression\<close>

text \<open>
  How far the double arithmetic of \<open>computed_progress\<close> can be from the exact value:
  each rounding to 53 bits has a relative error of at most \<open>1 / 2 ^ 53\<close>, so for
  counts below \<open>2 ^ 44\<close> the computed product is closer to \<open>c / t * 100\<close> than
  \<open>1 / (2 * t)\<close>, which is less than the distance from a value with denominator
  \<open>t\<close> that is not a tie to the nearest tie.
\<close>

lemma bit_length_pos_bounds:
  "0 < n \<Longrightarrow> 0 < bit_length n \<and> 2 ^ nat (bit_length n - 1) \<le> n \<and> n < 2 ^ nat (bit_length n)"
proof (induction n rule: bit_length.induct)
  case (1 n)
  show ?case
  proof (cases "n = 1")
    case True
    have "bit_length (1 :: int) = 1"
      by (simp add: bit_length.simps [of 1] bit_length.simps [of 0])
    with True show ?thesis by simp
  next
    case False
    with "1.prems" have m: "0 < n div 2" by linarith
    have ih: "0 < bit_length (n div 2) \<and> 2 ^ nat (bit_length (n div 2) - 1) \<le> n div 2
                \<and> n div 2 < 2 ^ nat (bit_length (n div 2))"
      using "1.IH" "1.prems" m by simp
    define b where "b = bit_length (n div 2)"
    have bl: "bit_length n = 1 + b"
      using "1.prems" by (simp add: b_def bit_length.simps [of n])
    from ih have b0: "0 < b" and lo: "2 ^ nat (b - 1) \<le> n div 2" and hi: "n div 2 < 2 ^ nat b"
      by (simp_all add: b_def)
    have nb: "nat b = Suc (nat (b - 1))" "nat (1 + b) = Suc (nat b)"
      using b0 by simp_all
    have "2 * 2 ^ nat (b - 1) \<le> 2 * (n div 2)" using lo by simp
    also have "\<dots> \<le> n" by simp
    finally have l: "2 ^ nat (1 + b - 1) \<le> n" by (simp add: nb(1))
    have "n \<le> 2 * (n div 2) + 1" by simp
    also have "\<dots> < 2 * 2 ^ nat b" using hi by simp
    finally have h: "n < 2 ^ nat (1 + b)" by (simp add: nb)
    from b0 l h show ?thesis by (simp only: bl) simp
  qed
qed

lemma bit_length_rat_bounds:
  assumes "0 < n"
  shows "2 powi (bit_length n - 1) \<le> (of_int n :: rat)" and "(of_int n :: rat) < 2 powi (bit_length n)"
proof -
  from bit_length_pos_bounds [OF assms] have b: "0 < bit_length n"
    and lo: "2 ^ nat (bit_length n - 1) \<le> n" and hi: "n < 2 ^ nat (bit_length n)"
    by simp_all
  have "(2 :: rat) powi (bit_length n - 1) = 2 ^ nat (bit_length n - 1)"
    using b by (simp add: power_int_nonneg_exp)
  also have "\<dots> = of_int (2 ^ nat (bit_length n - 1))" by simp
  also have "\<dots> \<le> of_int n" using lo by (simp only: of_int_le_iff)
  finally show "2 powi (bit_length n - 1) \<le> (of_int n :: rat)" .
  have "(of_int n :: rat) < of_int (2 ^ nat (bit_length n))" using hi by (simp only: of_int_less_iff)
  also have "\<dots> = 2 ^ nat (bit_length n)" by simp
  also have "\<dots> = 2 powi (bit_length n)" using b by (simp add: power_int_nonneg_exp)
  finally show "(of_int n :: rat) < 2 powi (bit_length n)" .
qed

lemma exponent_of_bounds:
  assumes "0 < x"
  shows "2 powi (exponent_of x) \<le> x" and "x < 2 powi (exponent_of x + 1)"
proof -
  obtain p q where pq: "quotient_of x = (p, q)" by (cases "quotient_of x")
  then have q: "0 < q" and x: "x = of_int p / of_int q"
    by (simp_all add: quotient_of_denom_pos quotient_of_div)
  have p: "0 < p"
    using assms q x by (simp add: zero_less_divide_iff)
  define a where "a = bit_length p"
  define b where "b = bit_length q"
  define k where "k = a - b"
  have pa: "2 powi (a - 1) \<le> (of_int p :: rat)" "(of_int p :: rat) < 2 powi a"
    using bit_length_rat_bounds [OF p] by (simp_all add: a_def)
  have qb: "2 powi (b - 1) \<le> (of_int q :: rat)" "(of_int q :: rat) < 2 powi b"
    using bit_length_rat_bounds [OF q] by (simp_all add: b_def)
  have qpos: "0 < (of_int q :: rat)" using q by simp
  have up: "x < 2 powi (k + 1)"
  proof -
    have "x < 2 powi a / of_int q"
      unfolding x using pa(2) qpos by (simp add: divide_strict_right_mono)
    also have "\<dots> \<le> 2 powi a / 2 powi (b - 1)"
      using qb(1) qpos by (intro divide_left_mono mult_pos_pos) simp_all
    also have "\<dots> = 2 powi (k + 1)"
      by (simp add: k_def power_int_diff [symmetric] algebra_simps)
    finally show ?thesis .
  qed
  have low: "2 powi (k - 1) \<le> x"
  proof -
    have "2 powi (k - 1) = 2 powi (a - 1) / (2 powi b :: rat)"
      by (simp add: k_def power_int_diff [symmetric] algebra_simps)
    also have "\<dots> \<le> of_int p / 2 powi b"
      using pa(1) by (simp add: divide_right_mono)
    also have "\<dots> \<le> of_int p / of_int q"
      using qb(2) qpos p by (intro divide_left_mono mult_pos_pos) simp_all
    finally show ?thesis by (simp add: x)
  qed
  have e: "exponent_of x = (if 2 powi k \<le> x then k else k - 1)"
    by (simp add: exponent_of_def pq a_def b_def k_def Let_def)
  show "2 powi (exponent_of x) \<le> x"
    using low by (simp add: e)
  show "x < 2 powi (exponent_of x + 1)"
    using up by (auto simp: e not_le)
qed

lemma round_ties_even_error: "\<bar>of_int (round_ties_even y) - y\<bar> \<le> 1 / 2"
proof -
  have "of_int \<lfloor>y\<rfloor> \<le> y" "y < of_int \<lfloor>y\<rfloor> + 1" by linarith+
  then show ?thesis
    by (auto simp: round_ties_even_def Let_def abs_le_iff)
qed

lemma exponent_of_ge:
  assumes "0 < x" and "2 powi j \<le> x"
  shows "j \<le> exponent_of x"
proof (rule ccontr)
  assume "\<not> j \<le> exponent_of x"
  then have "exponent_of x + 1 \<le> j" by simp
  then have "(2 :: rat) powi (exponent_of x + 1) \<le> 2 powi j"
    by (intro power_int_increasing) simp_all
  with exponent_of_bounds(2) [OF assms(1)] assms(2) show False by linarith
qed

lemma exponent_of_less:
  assumes "0 < x" and "x < 2 powi j"
  shows "exponent_of x < j"
proof (rule ccontr)
  assume "\<not> exponent_of x < j"
  then have "j \<le> exponent_of x" by simp
  then have "(2 :: rat) powi j \<le> 2 powi (exponent_of x)"
    by (intro power_int_increasing) simp_all
  with exponent_of_bounds(1) [OF assms(1)] assms(2) show False by linarith
qed

lemma round_to_53_bits_error:
  assumes "0 < x" and "- 1022 \<le> exponent_of x"
  shows "\<bar>round_to_53_bits x - x\<bar> \<le> x / 2 ^ 53"
proof -
  define k where "k = exponent_of x"
  define e where "e = k - 52"
  define m where "m = round_ties_even (x / 2 powi e)"
  have pe: "0 < (2 :: rat) powi e" by simp
  have mx: "max (exponent_of x - 52) (- 1074) = e"
    using assms(2) by (simp add: e_def k_def)
  have ax: "\<bar>x\<bar> = x" "sgn x = 1" "x \<noteq> 0"
    using assms(1) by simp_all
  have r: "round_to_53_bits x = of_int m * 2 powi e"
    unfolding round_to_53_bits_def Let_def ax(1,2) mx m_def using ax(3) by simp
  have "\<bar>of_int m - x / 2 powi e\<bar> \<le> 1 / 2"
    unfolding m_def by (rule round_ties_even_error)
  then have "\<bar>of_int m - x / 2 powi e\<bar> * 2 powi e \<le> 1 / 2 * 2 powi e"
    using pe by (intro mult_right_mono) simp_all
  moreover have "\<bar>of_int m - x / 2 powi e\<bar> * 2 powi e = \<bar>of_int m * 2 powi e - x\<bar>"
  proof -
    have "\<bar>of_int m - x / 2 powi e\<bar> * 2 powi e = \<bar>(of_int m - x / 2 powi e) * 2 powi e\<bar>"
      using pe by (simp add: abs_mult)
    also have "(of_int m - x / 2 powi e) * 2 powi e = of_int m * 2 powi e - x"
      using pe by (simp add: field_simps)
    finally show ?thesis .
  qed
  ultimately have "\<bar>round_to_53_bits x - x\<bar> \<le> 1 / 2 * 2 powi e"
    by (simp add: r)
  also have "1 / 2 * (2 :: rat) powi e = 2 powi k / 2 ^ 53"
  proof -
    have "(2 :: rat) powi k = 2 powi (e + 52)" by (simp add: e_def)
    also have "\<dots> = 2 powi e * 2 ^ 52" by (subst power_int_add) simp_all
    finally show ?thesis by simp
  qed
  also have "\<dots> \<le> x / 2 ^ 53"
    using exponent_of_bounds(1) [OF assms(1)] by (simp add: k_def divide_right_mono)
  finally show ?thesis .
qed

lemma to_double_finite:
  assumes "0 < x" and "- 1022 \<le> exponent_of x" and "x < 2 powi j" and "j < 1023"
  shows "to_double x = Finite (round_to_53_bits x)"
    and "0 < round_to_53_bits x"
proof -
  let ?r = "round_to_53_bits x"
  have err: "\<bar>?r - x\<bar> \<le> x / 2 ^ 53"
    using assms(1,2) by (rule round_to_53_bits_error)
  have "x / 2 ^ 53 < x" using assms(1) by (simp add: field_simps)
  with err show pos: "0 < ?r" by linarith
  have "x / 2 ^ 53 \<le> x" using assms(1) by (simp add: field_simps)
  with err have "?r \<le> 2 * x" by linarith
  also have "\<dots> < 2 * 2 powi j" using assms(3) by simp
  also have "\<dots> = 2 powi (j + 1)" by (subst power_int_add) simp_all
  finally have "exponent_of ?r < j + 1"
    using pos by (intro exponent_of_less)
  with assms(4) have "exponent_of ?r < 1024" by simp
  moreover have "\<bar>?r\<bar> = ?r" using pos by simp
  ultimately show "to_double x = Finite ?r"
    unfolding to_double_def Let_def by simp
qed

lemma two_roundings_close:
  fixes x q p u :: rat
  assumes "0 \<le> x" and "0 \<le> u" and "\<bar>q - x\<bar> \<le> x * u" and "\<bar>p - q * 100\<bar> \<le> q * 100 * u"
  shows "\<bar>p - 100 * x\<bar> \<le> 100 * x * u * (2 + u)"
proof -
  have q: "q \<le> x * (1 + u)"
    using assms(3) by (simp add: abs_le_iff algebra_simps)
  have "q * 100 * u \<le> x * (1 + u) * 100 * u"
    using q assms(2) by (intro mult_right_mono) simp_all
  with assms(4) have a: "\<bar>p - q * 100\<bar> \<le> x * (1 + u) * 100 * u" by linarith
  have b: "\<bar>q * 100 - 100 * x\<bar> \<le> 100 * (x * u)"
  proof -
    have "\<bar>q * 100 - 100 * x\<bar> = 100 * \<bar>q - x\<bar>" by (simp add: abs_if)
    then show ?thesis using assms(3) by simp
  qed
  have "\<bar>p - 100 * x\<bar> \<le> \<bar>p - q * 100\<bar> + \<bar>q * 100 - 100 * x\<bar>" by simp
  with a b have "\<bar>p - 100 * x\<bar> \<le> x * (1 + u) * 100 * u + 100 * (x * u)" by linarith
  also have "\<dots> = 100 * x * u * (2 + u)" by (simp add: algebra_simps)
  finally show ?thesis .
qed

lemma round_stable:
  fixes y p :: rat and N D :: int
  assumes D: "0 < D" and y: "y + 1 / 2 = of_int N / of_int D" and eps: "\<bar>p - y\<bar> < 1 / of_int D"
  shows "N mod D \<noteq> 0 \<Longrightarrow> \<lfloor>p + 1 / 2\<rfloor> = N div D"
    and "\<lfloor>p + 1 / 2\<rfloor> = N div D \<or> \<lfloor>p + 1 / 2\<rfloor> = N div D - 1"
proof -
  define f where "f = N div D"
  define r where "r = N mod D"
  have N: "N = f * D + r" by (simp add: f_def r_def)
  have r: "0 \<le> r" "r < D" using D by (simp_all add: r_def)
  have dpos: "0 < (of_int D :: rat)" using D by simp
  have yf: "y + 1 / 2 = of_int f + of_int r / of_int D"
    using dpos by (simp add: y N field_simps)
  have inv_le: "1 / (of_int D :: rat) \<le> 1"
    using D by simp
  have nontie: "\<lfloor>p + 1 / 2\<rfloor> = f" if "r \<noteq> 0"
  proof -
    from that r have r1: "1 \<le> r" and r2: "r \<le> D - 1" by simp_all
    have "(of_int (1 :: int) :: rat) \<le> of_int r"
      using r1 by (simp only: of_int_le_iff)
    moreover have "(of_int r :: rat) \<le> of_int (D - 1)"
      using r2 by (simp only: of_int_le_iff)
    ultimately have "(1 :: rat) \<le> of_int r" "(of_int r :: rat) \<le> of_int D - 1"
      by simp_all
    then have lo: "1 / of_int D \<le> (of_int r :: rat) / of_int D"
      and hi: "(of_int r :: rat) / of_int D \<le> 1 - 1 / of_int D"
      using dpos by (simp_all add: field_simps)
    from eps have "y - 1 / of_int D < p" "p < y + 1 / of_int D"
      by (simp_all add: abs_less_iff)
    with yf lo hi have "of_int f < p + 1 / 2" "p + 1 / 2 < of_int f + 1" by linarith+
    then show ?thesis by (intro floor_unique) simp_all
  qed
  then show "N mod D \<noteq> 0 \<Longrightarrow> \<lfloor>p + 1 / 2\<rfloor> = N div D"
    by (simp add: r_def f_def)
  show "\<lfloor>p + 1 / 2\<rfloor> = N div D \<or> \<lfloor>p + 1 / 2\<rfloor> = N div D - 1"
  proof (cases "r = 0")
    case False
    with nontie show ?thesis by (simp add: f_def)
  next
    case True
    from eps have b: "y - 1 / of_int D < p" "p < y + 1 / of_int D"
      by (simp_all add: abs_less_iff)
    from yf True have "y + 1 / 2 = of_int f" by simp
    with b inv_le have lo: "of_int (f - 1) \<le> p + 1 / 2" and hi: "p + 1 / 2 < of_int (f + 1)"
      by simp_all
    from lo have "f - 1 \<le> \<lfloor>p + 1 / 2\<rfloor>" by (simp only: le_floor_iff)
    moreover from hi have "\<lfloor>p + 1 / 2\<rfloor> < f + 1" by (simp only: floor_less_iff)
    ultimately show ?thesis by (auto simp: f_def)
  qed
qed

lemma to_double_zero: "to_double 0 = Finite 0"
  by (simp add: to_double_def round_to_53_bits_def)

lemma computed_progress_floor:
  assumes c: "0 < c" "c < 2 ^ 44" and t: "0 < t" "t < 2 ^ 53"
  shows "\<exists>p :: rat. computed_progress c t = Finite (of_int \<lfloor>p + 1 / 2\<rfloor>)
           \<and> \<bar>p - 100 * (of_int c / of_int t)\<bar> < 1 / of_int (2 * t)"
proof -
  define x :: rat where "x = of_int c / of_int t"
  define u :: rat where "u = 1 / 2 ^ 53"
  have tp: "0 < (of_int t :: rat)" and cp: "0 < (of_int c :: rat)"
    using c t by simp_all
  have xpos: "0 < x" using tp cp by (simp add: x_def)
  have ct: "(of_int c :: rat) \<le> 2 ^ 44" "(of_int t :: rat) \<le> 2 ^ 53" "(1 :: rat) \<le> of_int c"
    "(1 :: rat) \<le> of_int t"
  proof -
    have i: "c \<le> 2 ^ 44" "t \<le> 2 ^ 53" "1 \<le> c" "1 \<le> t" using c t by simp_all
    have "(of_int c :: rat) \<le> of_int (2 ^ 44)" using i(1) by (simp only: of_int_le_iff)
    then show "(of_int c :: rat) \<le> 2 ^ 44" by simp
    have "(of_int t :: rat) \<le> of_int (2 ^ 53)" using i(2) by (simp only: of_int_le_iff)
    then show "(of_int t :: rat) \<le> 2 ^ 53" by simp
    have "(of_int 1 :: rat) \<le> of_int c" using i(3) by (simp only: of_int_le_iff)
    then show "(1 :: rat) \<le> of_int c" by simp
    have "(of_int 1 :: rat) \<le> of_int t" using i(4) by (simp only: of_int_le_iff)
    then show "(1 :: rat) \<le> of_int t" by simp
  qed
  have xlo: "2 powi (- 53) \<le> x"
  proof -
    have "(2 :: rat) powi (- 53) = 1 / 2 ^ 53" by (simp add: power_int_minus_divide)
    also have "\<dots> \<le> 1 / of_int t" using ct(2) tp by (intro divide_left_mono) simp_all
    also have "\<dots> \<le> of_int c / of_int t" using ct(3) tp by (intro divide_right_mono) simp_all
    finally show ?thesis by (simp add: x_def)
  qed
  have xhi: "x \<le> 2 ^ 44"
  proof -
    have "x \<le> of_int c / 1" unfolding x_def using ct(4) cp by (intro divide_left_mono) simp_all
    with ct(1) show ?thesis by simp
  qed
  have ex: "- 1022 \<le> exponent_of x"
    using exponent_of_ge [OF xpos xlo] by simp
  have "x < 2 powi 45" using xhi by simp
  from to_double_finite [OF xpos ex this] have
    dq: "to_double x = Finite (round_to_53_bits x)" and qpos: "0 < round_to_53_bits x"
    by simp_all
  define q where "q = round_to_53_bits x"
  have qerr: "\<bar>q - x\<bar> \<le> x * u"
    using round_to_53_bits_error [OF xpos ex] by (simp add: q_def u_def)
  have xu: "x * u \<le> x / 2" using xpos by (simp add: u_def field_simps)
  have qd: "q - x \<le> x * u" "x - q \<le> x * u"
    using qerr by (simp_all add: abs_le_iff)
  have qlo: "x / 2 \<le> q" and qhi: "q \<le> 2 * x"
    using qd xu xpos by linarith+
  define z where "z = q * 100"
  have zpos: "0 < z" using qpos by (simp add: z_def q_def)
  have zlo: "2 powi (- 54) \<le> z"
  proof -
    have "(2 :: rat) powi (- 54) = 2 powi (- 53) / 2"
      by (simp add: power_int_minus_divide)
    also have "\<dots> \<le> x / 2" using xlo by simp
    also have "\<dots> \<le> q" by (rule qlo)
    also have "\<dots> \<le> z" using qpos by (simp add: z_def q_def)
    finally show ?thesis .
  qed
  have ez: "- 1022 \<le> exponent_of z"
    using exponent_of_ge [OF zpos zlo] by simp
  have "z \<le> 200 * 2 ^ 44" using qhi xhi by (simp add: z_def)
  then have "z < 2 powi 53" by simp
  from to_double_finite [OF zpos ez this] have
    dz: "to_double z = Finite (round_to_53_bits z)"
    by simp_all
  define p where "p = round_to_53_bits z"
  have perr: "\<bar>p - q * 100\<bar> \<le> q * 100 * u"
    using round_to_53_bits_error [OF zpos ez] by (simp add: p_def z_def u_def)
  have close: "\<bar>p - 100 * x\<bar> \<le> 100 * x * u * (2 + u)"
    using xpos qerr perr by (intro two_roundings_close [where q = q]) (simp_all add: u_def)
  have small: "100 * x * u * (2 + u) < 1 / of_int (2 * t)"
  proof -
    have "100 * of_int c * u * (2 + u) \<le> 100 * 2 ^ 44 * u * (2 + u)"
      using ct(1) by (intro mult_right_mono) (simp_all add: u_def)
    also have "\<dots> < 1 / 2" by (simp add: u_def)
    finally have "100 * of_int c * u * (2 + u) / of_int t < (1 / 2) / of_int t"
      using tp by (intro divide_strict_right_mono) simp_all
    then show ?thesis by (simp add: x_def)
  qed
  have "computed_progress c t = Math_round (js_mul (to_double x) (Finite 100))"
    using t by (simp add: computed_progress_def x_def)
  also have "\<dots> = Math_round (to_double z)"
    by (simp add: dq z_def q_def)
  also have "\<dots> = Finite (of_int \<lfloor>p + 1 / 2\<rfloor>)"
    by (simp add: dz p_def)
  finally have res: "computed_progress c t = Finite (of_int \<lfloor>p + 1 / 2\<rfloor>)" .
  have "\<bar>p - 100 * (of_int c / of_int t)\<bar> < 1 / of_int (2 * t)"
    using close small by (simp add: x_def)
  with res show ?thesis by blast
qed

lemma progress_exact_off_ties:
  assumes c: "0 \<le> c" "c < 2 ^ 44" and t: "0 < t" "t < 2 ^ 53"
  shows "(200 * c + t) mod (2 * t) \<noteq> 0 \<Longrightarrow>
           computed_progress c t = Finite (of_int (round (of_int c / of_int t * 100 :: rat)))"
    and "computed_progress c t = Finite (of_int (round (of_int c / of_int t * 100 :: rat)))
         \<or> computed_progress c t = Finite (of_int (round (of_int c / of_int t * 100 :: rat) - 1))"
proof -
  let ?y = "of_int c / of_int t * 100 :: rat"
  have tp: "0 < (of_int t :: rat)" using t by simp
  have y: "?y + 1 / 2 = of_int (200 * c + t) / of_int (2 * t)"
    using tp by (simp add: field_simps)
  have rnd: "round ?y = (200 * c + t) div (2 * t)"
    unfolding round_def y by (rule floor_divide_of_int_eq)
  have both: "((200 * c + t) mod (2 * t) \<noteq> 0 \<longrightarrow> computed_progress c t = Finite (of_int (round ?y)))
      \<and> (computed_progress c t = Finite (of_int (round ?y))
          \<or> computed_progress c t = Finite (of_int (round ?y - 1)))"
  proof (cases "c = 0")
    case True
    have "\<lfloor>1 / 2 :: rat\<rfloor> = 0" by (rule floor_unique) simp_all
    then have "computed_progress 0 t = Finite 0"
      using t by (simp add: computed_progress_def to_double_zero)
    then show ?thesis using True by simp
  next
    case False
    with c have c0: "0 < c" by simp
    from computed_progress_floor [OF c0 c(2) t] obtain p :: rat where
      cp: "computed_progress c t = Finite (of_int \<lfloor>p + 1 / 2\<rfloor>)"
      and eps: "\<bar>p - 100 * (of_int c / of_int t)\<bar> < 1 / of_int (2 * t)"
      by blast
    have d: "0 < 2 * t" using t by simp
    have eps': "\<bar>p - ?y\<bar> < 1 / of_int (2 * t)"
      using eps by (simp add: mult.commute)
    show ?thesis
      unfolding rnd cp using round_stable [OF d y eps'] by auto
  qed
  from both show "(200 * c + t) mod (2 * t) \<noteq> 0 \<Longrightarrow>
           computed_progress c t = Finite (of_int (round ?y))"
    by simp
  from both show "computed_progress c t = Finite (of_int (round ?y))
         \<or> computed_progress c t = Finite (of_int (round ?y - 1))"
    by simp
qed

lemma progress_zero_total: "t \<le> 0 \<Longrightarrow> computed_progress c t = Finite 0"
  by (simp add: computed_progress_def)

subsection \<open>Projects: progress and status\<close>

lemma merge_at_index:
  assumes "k < length ps" and "proj_id (ps ! k) = i"
  shows "find (\<lambda>p. proj_id p = i) (map (\<lambda>p. if proj_id p = i then merge_project p u else p) ps) \<noteq> None"
proof -
  have "proj_id (merge_project (ps ! k) u) = i"
    using assms(2) by (simp add: merge_project_def)
  moreover have "merge_project (ps ! k) u \<in> set (map (\<lambda>p. if proj_id p = i then merge_project p u else p) ps)"
    using assms by (force simp: in_set_conv_nth)
  ultimately show ?thesis
    by (auto simp: find_None_iff)
qed

lemma updateProject_result:
  assumes "proj_db s = Some d" and "k < length (projects s)" and "proj_id (projects s ! k) = i"
  shows "\<exists>s'. updateProject i u s = Inr s'
           \<and> projects s' = map (\<lambda>p. if proj_id p = i then merge_project p u else p) (projects s)"
proof -
  from merge_at_index [OF assms(2,3), of u] obtain up where
    "find (\<lambda>p. proj_id p = i) (map (\<lambda>p. if proj_id p = i then merge_project p u else p) (projects s)) = Some up"
    by auto
  then show ?thesis
    using assms(1) by (simp add: updateProject_def Let_def projectRepo_updateProject_def getDatabase_def)
qed

lemma updateProgress_eq:
  "updateProgress i c t s =
     updateProject i
       \<lparr>upd_name = None, upd_description = None, upd_progress = Some (computed_progress c t),
        upd_totalTasks = Some t, upd_completedTasks = Some c, upd_color = None,
        upd_status = Some (if computed_progress c t = Finite 100 then Completed else Active),
        upd_deadline = None, upd_tags = None\<rparr> s"
  by (simp add: updateProgress_def computed_progress_def Let_def)

lemma updateProgress_result:
  assumes "proj_db s = Some d" and "k < length (projects s)" and "proj_id (projects s ! k) = i"
  shows "\<exists>s'. updateProgress i c t s = Inr s'
           \<and> length (projects s') = length (projects s)
           \<and> progress (projects s' ! k) = computed_progress c t
           \<and> status (projects s' ! k)
               = (if computed_progress c t = Finite 100 then Completed else Active)"
proof -
  let ?pr = "computed_progress c t"
  let ?u = "\<lparr>upd_name = None, upd_description = None, upd_progress = Some ?pr,
             upd_totalTasks = Some t, upd_completedTasks = Some c, upd_color = None,
             upd_status = Some (if ?pr = Finite 100 then Completed else Active),
             upd_deadline = None, upd_tags = None\<rparr>"
  have eq: "updateProgress i c t s = updateProject i ?u s"
    by (rule updateProgress_eq)
  from updateProject_result [OF assms, of ?u] obtain s' where
    s': "updateProject i ?u s = Inr s'"
    and ps: "projects s' = map (\<lambda>p. if proj_id p = i then merge_project p ?u else p) (projects s)"
    by blast
  have m: "projects s' ! k = merge_project (projects s ! k) ?u"
    using assms(2,3) by (simp add: ps)
  have "progress (projects s' ! k) = ?pr"
    and "status (projects s' ! k) = (if ?pr = Finite 100 then Completed else Active)"
    by (simp_all add: m merge_project_def)
  then show ?thesis
    using s' eq ps by simp
qed

lemma progress_23_of_40: "computed_progress 23 40 = Finite 57"
  by code_simp

lemma progress_29_of_200:
  "computed_progress 29 200 = Finite 14 \<and> round ((29 :: rat) / 200 * 100) = (15 :: int)"
  by code_simp

text \<open>
  C4 fails on the code. With 23 of 40 tasks completed the exact value of
  \<open>c / t * 100\<close> is 57.5, which rounds to 58; \<open>updateProgress\<close> stores 57 in the
  project and in its row, because the quotient \<open>23 / 40\<close> is rounded to a double before
  it is multiplied by 100 and the product falls just below 57.5. Ties are the only
  counts below \<open>2 ^ 44\<close> at which this happens (\<open>progress_exact_off_ties\<close>), and for
  a total that is not positive the progress is 0 (\<open>progress_zero_total\<close>).
\<close>

theorem updateProgress_misrounds_23_of_40:
  "updateProgress ''demo-3'' 23 40 audit_state
     = Inr \<lparr>proj_db = Some \<lparr>tasks_tbl = [],
                              projects_tbl = [audit_row\<lparr>prow_progress := Finite 57,
                                                total_tasks := 40, completed_tasks := 23,
                                                prow_status := Active\<rparr>]\<rparr>,
            projects = [audit\<lparr>progress := Finite 57, totalTasks := 40, completedTasks := 23,
                          status := Active\<rparr>]\<rparr>
   \<and> round ((23 :: rat) / 40 * 100) = (58 :: int)"
proof -
  have "updateProgress ''demo-3'' 23 40 audit_state
     = Inr \<lparr>proj_db = Some \<lparr>tasks_tbl = [],
                              projects_tbl = [audit_row\<lparr>prow_progress := Finite 57,
                                                total_tasks := 40, completed_tasks := 23,
                                                prow_status := Active\<rparr>]\<rparr>,
            projects = [audit\<lparr>progress := Finite 57, totalTasks := 40, completedTasks := 23,
                          status := Active\<rparr>]\<rparr>"
    unfolding updateProgress_eq progress_23_of_40
    by (simp add: updateProject_def Let_def audit_state_def audit_def audit_row_def
        merge_project_def projectRepo_updateProject_def getDatabase_def or_null_def truthy_str_def)
  moreover have "round ((23 :: rat) / 40 * 100) = (58 :: int)"
    by code_simp
  ultimately show ?thesis by simp
qed

text \<open>
  C5. After \<open>updateProgress\<close> the project's \<open>status\<close> is \<open>Completed\<close> exactly when its
  \<open>progress\<close> is 100 and \<open>Active\<close> otherwise; it is never \<open>OnHold\<close>, whatever it was
  before.
\<close>

theorem updateProgress_status:
  assumes "proj_db s = Some d" and "k < length (projects s)" and "proj_id (projects s ! k) = i"
  shows "\<exists>s'. updateProgress i c t s = Inr s'
           \<and> (status (projects s' ! k) = Completed \<longleftrightarrow> progress (projects s' ! k) = Finite 100)
           \<and> (progress (projects s' ! k) \<noteq> Finite 100 \<longrightarrow> status (projects s' ! k) = Active)
           \<and> status (projects s' ! k) \<noteq> OnHold"
  using updateProgress_result [OF assms, of c t] by auto

theorem updateProgress_status_witness:
  "proj_db audit_state = Some \<lparr>tasks_tbl = [], projects_tbl = [audit_row]\<rparr>
   \<and> 0 < length (projects audit_state) \<and> proj_id (projects audit_state ! 0) = ''demo-3''
   \<and> status (projects audit_state ! 0) = OnHold
   \<and> (\<exists>s'. updateProgress ''demo-3'' 2 8 audit_state = Inr s'
          \<and> progress (projects s' ! 0) = Finite 25 \<and> status (projects s' ! 0) = Active)
   \<and> (\<exists>s'. updateProgress ''demo-3'' 4 4 audit_state = Inr s'
          \<and> progress (projects s' ! 0) = Finite 100 \<and> status (projects s' ! 0) = Completed)"
proof -
  have h1: "proj_db audit_state = Some \<lparr>tasks_tbl = [], projects_tbl = [audit_row]\<rparr>"
    by (simp add: audit_state_def)
  have h2: "0 < length (projects audit_state)"
    by (simp add: audit_state_def)
  have h3: "proj_id (projects audit_state ! 0) = ''demo-3''"
    by (simp add: audit_state_def audit_def)
  have h4: "status (projects audit_state ! 0) = OnHold"
    by (simp add: audit_state_def audit_def)
  have v1: "computed_progress 2 8 = Finite 25" and v2: "computed_progress 4 4 = Finite 100"
    by code_simp+
  have p1: "\<exists>s'. updateProgress ''demo-3'' 2 8 audit_state = Inr s'
          \<and> progress (projects s' ! 0) = Finite 25 \<and> status (projects s' ! 0) = Active"
    using updateProgress_status [OF h1 h2 h3, of 2 8] updateProgress_result [OF h1 h2 h3, of 2 8] v1
    by auto
  have p2: "\<exists>s'. updateProgress ''demo-3'' 4 4 audit_state = Inr s'
          \<and> progress (projects s' ! 0) = Finite 100 \<and> status (projects s' ! 0) = Completed"
    using updateProgress_status [OF h1 h2 h3, of 4 4] updateProgress_result [OF h1 h2 h3, of 4 4] v2
    by auto
  from h1 h2 h3 h4 p1 p2 show ?thesis by blast
qed

subsection \<open>Reordering\<close>

lemma run_order_updates_map:
  "run_order_updates n ids rows = map (order_updates_on n ids) rows"
proof (induction ids arbitrary: n rows)
  case Nil
  show ?case by (simp add: map_idI)
next
  case (Cons i ids)
  show ?case by (simp add: Cons.IH comp_def)
qed

lemma order_updates_on_id [simp]: "row_id (order_updates_on n ids r) = row_id r"
  by (induction ids arbitrary: n r) simp_all

lemma order_updates_on_category [simp]: "row_category (order_updates_on n ids r) = row_category r"
  by (induction ids arbitrary: n r) simp_all

lemma order_updates_on_other:
  "row_id r \<notin> set ids \<Longrightarrow> order_updates_on n ids r = r"
  by (induction ids arbitrary: n) simp_all

lemma order_updates_on_nth:
  "distinct ids \<Longrightarrow> k < length ids \<Longrightarrow> row_id r = ids ! k \<Longrightarrow>
     task_order (order_updates_on n ids r) = int (n + k)"
proof (induction ids arbitrary: n k r)
  case Nil
  then show ?case by simp
next
  case (Cons i ids)
  show ?case
  proof (cases k)
    case 0
    with Cons.prems have "row_id r = i" and "i \<notin> set ids" by simp_all
    then show ?thesis
      using 0 by (simp add: order_updates_on_other)
  next
    case (Suc k')
    with Cons.prems have k': "k' < length ids" and r: "row_id r = ids ! k'" and d: "distinct ids"
      and ni: "i \<notin> set ids"
      by simp_all
    from k' r ni have "row_id r \<noteq> i" by auto
    then show ?thesis
      using Cons.IH [OF d k' r, of "Suc n"] Suc by simp
  qed
qed

lemma orders_after_updates:
  assumes d: "distinct ids" and dr: "distinct (map row_id rs)" and eq: "set ids = row_id ` set rs"
  shows "set (map task_order (map (order_updates_on 0 ids) rs)) = {0..<int (length rs)}"
proof -
  have len: "length ids = length rs"
  proof -
    have "card (set ids) = length ids" using d by (rule distinct_card)
    moreover have "card (set (map row_id rs)) = length (map row_id rs)" using dr by (rule distinct_card)
    ultimately show ?thesis using eq by simp
  qed
  have "set (map task_order (map (order_updates_on 0 ids) rs)) = int ` {0..<length ids}"
  proof (rule set_eqI, rule iffI)
    fix v
    assume "v \<in> set (map task_order (map (order_updates_on 0 ids) rs))"
    then obtain r where r: "r \<in> set rs" and v: "v = task_order (order_updates_on 0 ids r)"
      by auto
    from r eq have "row_id r \<in> set ids" by auto
    then obtain k where k: "k < length ids" and "ids ! k = row_id r"
      by (auto simp: in_set_conv_nth)
    then have "task_order (order_updates_on 0 ids r) = int k"
      using order_updates_on_nth [OF d k, of r 0] by simp
    with v k show "v \<in> int ` {0..<length ids}" by simp
  next
    fix v
    assume "v \<in> int ` {0..<length ids}"
    then obtain k where k: "k < length ids" and v: "v = int k" by auto
    then have "ids ! k \<in> row_id ` set rs" using eq by auto
    then obtain r where r: "r \<in> set rs" and "row_id r = ids ! k" by auto
    then have "task_order (order_updates_on 0 ids r) = int k"
      using order_updates_on_nth [OF d k, of r 0] by simp
    with r v show "v \<in> set (map task_order (map (order_updates_on 0 ids) rs))"
      by force
  qed
  also have "\<dots> = {0..<int (length rs)}"
    by (simp add: len image_int_atLeastLessThan)
  finally show ?thesis .
qed

lemma dense_rows_after_updates:
  assumes d: "distinct ids" and dr: "distinct (map row_id rows)"
    and eq: "set ids = row_id ` {r \<in> set rows. row_category r = c}"
  shows "dense_rows c (run_order_updates 0 ids rows)"
proof -
  let ?rs = "filter (\<lambda>r. row_category r = c) rows"
  have f: "filter (\<lambda>r. row_category r = c) (map (order_updates_on 0 ids) rows)
             = map (order_updates_on 0 ids) ?rs"
    by (simp add: filter_map comp_def)
  have dr': "distinct (map row_id ?rs)"
    using dr by (rule distinct_map_filter)
  have eq': "set ids = row_id ` set ?rs"
    using eq by simp
  show ?thesis
    using orders_after_updates [OF d dr' eq']
    by (simp add: dense_rows_def run_order_updates_map f Let_def)
qed

lemma dense_tasks_after_reorder:
  assumes "\<forall>t \<in> set l. category t = c"
  shows "dense_tasks c (filter (\<lambda>t. category t \<noteq> c) prev @
                          map (\<lambda>(index, t). t\<lparr>order := Some (int index)\<rparr>) (enumerate 0 l))"
proof -
  let ?ord = "map (\<lambda>(index, t). t\<lparr>order := Some (int index)\<rparr>) (enumerate 0 l)"
  have cat: "\<forall>t \<in> set ?ord. category t = c"
    using assms by (auto simp: in_set_enumerate_eq)
  have f1: "filter (\<lambda>t. category t = c) (filter (\<lambda>t. category t \<noteq> c) prev) = []"
    by (simp add: filter_empty_conv)
  have f2: "filter (\<lambda>t. category t = c) ?ord = ?ord"
    using cat by (intro filter_True) simp
  have o: "map order ?ord = map (\<lambda>k. Some (int k)) [0..<length l]"
    by (rule nth_equalityI) (simp_all add: nth_enumerate_eq)
  have "set (map order ?ord) = (\<lambda>k. Some (int k)) ` {0..<length l}"
    by (simp only: o set_map set_upt)
  also have "\<dots> = Some ` int ` {0..<length l}"
    by (simp add: image_image)
  also have "\<dots> = Some ` {0..<int (length l)}"
    by (simp add: image_int_atLeastLessThan)
  finally have "set (map order ?ord) = Some ` {0..<int (length l)}" .
  then show ?thesis
    by (simp add: dense_tasks_def Let_def f1 f2 del: set_map)
qed

lemma reorderTasks_result:
  "reorderTasks c l s =
     Inr (setTasks s (\<lambda>prev. filter (\<lambda>t. category t \<noteq> c) prev @
                              map (\<lambda>(index, t). t\<lparr>order := Some (int index)\<rparr>) (enumerate 0 l))
            (if useDb s then try_repo (taskRepo_updateTaskOrder c (map task_id l)) s else s))"
  by (simp add: reorderTasks_def reorderTasks_of_def Let_def)

text \<open>
  C3 as stated fails: \<open>reorderTasks\<close> takes any list. With the list \<open>[plan, milk]\<close>
  for \<open>Today\<close>, where \<open>plan\<close> belongs to \<open>Week\<close> and \<open>eggs\<close> is left out, the rows of
  \<open>Today\<close> end with the orders 1 and 1, and the only in-memory task of \<open>Today\<close> has
  order 1.
\<close>

theorem reorder_any_list_counterexample:
  "reorderTasks Today [plan, milk] (relational_state [milk, eggs, plan])
     = Inr \<lparr>dbReady = True,
            db = Some \<lparr>tasks_tbl = [(task_to_row milk)\<lparr>task_order := 1\<rparr>, task_to_row eggs,
                                    task_to_row plan],
                       projects_tbl = []\<rparr>,
            localTasks = [], stored_tasks = [],
            dbTasks = [plan, plan, milk\<lparr>order := Some 1\<rparr>], useDb = True\<rparr>
   \<and> \<not> dense_rows Today [(task_to_row milk)\<lparr>task_order := 1\<rparr>, task_to_row eggs, task_to_row plan]
   \<and> \<not> dense_tasks Today [plan, plan, milk\<lparr>order := Some 1\<rparr>]"
proof -
  have a: "reorderTasks Today [plan, milk] (relational_state [milk, eggs, plan])
     = Inr \<lparr>dbReady = True,
            db = Some \<lparr>tasks_tbl = [(task_to_row milk)\<lparr>task_order := 1\<rparr>, task_to_row eggs,
                                    task_to_row plan],
                       projects_tbl = []\<rparr>,
            localTasks = [], stored_tasks = [],
            dbTasks = [plan, plan, milk\<lparr>order := Some 1\<rparr>], useDb = True\<rparr>"
    by (simp add: reorderTasks_def reorderTasks_of_def Let_def relational_state_def try_repo_def
        taskRepo_updateTaskOrder_def getDatabase_def setTasks_def task_to_row_def
        milk_def eggs_def plan_def or_null_def or_zero_def truthy_str_def enumerate_eq_zip)
  have "(0::int) \<notin> set (map task_order (filter (\<lambda>r. row_category r = Today)
           [(task_to_row milk)\<lparr>task_order := 1\<rparr>, task_to_row eggs, task_to_row plan]))"
    by (simp add: task_to_row_def milk_def eggs_def plan_def or_zero_def)
  moreover have "(0::int) \<in> {0..<int (length (map task_order (filter (\<lambda>r. row_category r = Today)
           [(task_to_row milk)\<lparr>task_order := 1\<rparr>, task_to_row eggs, task_to_row plan])))}"
    by (simp add: task_to_row_def milk_def eggs_def plan_def)
  ultimately have b: "\<not> dense_rows Today
      [(task_to_row milk)\<lparr>task_order := 1\<rparr>, task_to_row eggs, task_to_row plan]"
    unfolding dense_rows_def Let_def by metis
  have "Some (0::int) \<notin> set (map order (filter (\<lambda>t. category t = Today)
           [plan, plan, milk\<lparr>order := Some 1\<rparr>]))"
    by (simp add: milk_def plan_def)
  moreover have "Some (0::int) \<in> Some ` {0..<int (length (map order (filter (\<lambda>t. category t = Today)
           [plan, plan, milk\<lparr>order := Some 1\<rparr>])))}"
    by (simp add: milk_def plan_def)
  ultimately have c: "\<not> dense_tasks Today [plan, plan, milk\<lparr>order := Some 1\<rparr>]"
    unfolding dense_tasks_def Let_def by metis
  from a b c show ?thesis by blast
qed

text \<open>
  C3, as amended. For every category and every list whose tasks all belong to it,
  \<open>reorderTasks\<close> returns without an error and the order values of the in-memory tasks
  of the category are exactly \<open>0, \<dots>, n - 1\<close>. In relational mode the same holds for
  the rows of the category in the \<^verbatim>\<open>tasks\<close> table, provided the list holds every task
  of the category exactly once: its ids are distinct and are the ids of the rows of the
  category (row ids being distinct, as the primary key makes them).
\<close>

theorem reorder_complete_list_dense:
  assumes "\<forall>t \<in> set l. category t = c"
  shows "\<exists>s'. reorderTasks c l s = Inr s'
           \<and> dense_tasks c (tasks s')
           \<and> (\<forall>d. useDb s \<and> db s = Some d
                    \<and> distinct (map row_id (tasks_tbl d))
                    \<and> distinct (map task_id l)
                    \<and> set (map task_id l) = row_id ` {r \<in> set (tasks_tbl d). row_category r = c}
                  \<longrightarrow> (\<exists>d'. db s' = Some d' \<and> dense_rows c (tasks_tbl d')))"
proof -
  let ?upd = "\<lambda>prev. filter (\<lambda>t. category t \<noteq> c) prev @
                 map (\<lambda>(index, t). t\<lparr>order := Some (int index)\<rparr>) (enumerate 0 l)"
  let ?s1 = "if useDb s then try_repo (taskRepo_updateTaskOrder c (map task_id l)) s else s"
  let ?s' = "setTasks s ?upd ?s1"
  have r: "reorderTasks c l s = Inr ?s'"
    by (rule reorderTasks_result)
  have "tasks ?s' = ?upd (tasks s)"
    by (simp add: tasks_setTasks_same tasks_setTasks_try_repo)
  then have mem: "dense_tasks c (tasks ?s')"
    using dense_tasks_after_reorder [OF assms] by simp
  have stored: "\<exists>d'. db ?s' = Some d' \<and> dense_rows c (tasks_tbl d')"
    if u: "useDb s" and d: "db s = Some d" and pk: "distinct (map row_id (tasks_tbl d))"
      and dl: "distinct (map task_id l)"
      and eq: "set (map task_id l) = row_id ` {r \<in> set (tasks_tbl d). row_category r = c}" for d
  proof -
    have "db ?s' = Some (d\<lparr>tasks_tbl := run_order_updates 0 (map task_id l) (tasks_tbl d)\<rparr>)"
      using u d by (simp add: db_setTasks try_repo_def taskRepo_updateTaskOrder_def getDatabase_def)
    moreover have "dense_rows c (run_order_updates 0 (map task_id l) (tasks_tbl d))"
      using dl pk eq by (rule dense_rows_after_updates)
    ultimately show ?thesis by simp
  qed
  from r mem stored show ?thesis by blast
qed

theorem reorder_complete_list_dense_witness:
  "category eggs = Today \<and> category milk = Today
   \<and> useDb (relational_state [milk, eggs, plan])
   \<and> distinct (map row_id (map task_to_row [milk, eggs, plan]))
   \<and> distinct (map task_id [eggs, milk])
   \<and> (\<exists>s' d'. reorderTasks Today [eggs, milk] (relational_state [milk, eggs, plan]) = Inr s'
         \<and> tasks s' = [plan, eggs\<lparr>order := Some 0\<rparr>, milk\<lparr>order := Some 1\<rparr>]
         \<and> dense_tasks Today (tasks s')
         \<and> db s' = Some d' \<and> dense_rows Today (tasks_tbl d'))"
proof -
  let ?s = "relational_state [milk, eggs, plan]"
  let ?d = "\<lparr>tasks_tbl = map task_to_row [milk, eggs, plan], projects_tbl = []\<rparr>"
  have h: "\<forall>t \<in> set [eggs, milk]. category t = Today"
    by (simp add: milk_def eggs_def)
  have u: "useDb ?s" and d: "db ?s = Some ?d"
    by (simp_all add: relational_state_def)
  have pk: "distinct (map row_id (tasks_tbl ?d))"
    by (simp add: task_to_row_def milk_def eggs_def plan_def)
  have dl: "distinct (map task_id [eggs, milk])"
    by (simp add: milk_def eggs_def)
  have "{r \<in> set (tasks_tbl ?d). row_category r = Today}
          = set (filter (\<lambda>r. row_category r = Today) (tasks_tbl ?d))"
    by auto
  then have eq: "set (map task_id [eggs, milk])
                   = row_id ` {r \<in> set (tasks_tbl ?d). row_category r = Today}"
    by (simp add: task_to_row_def milk_def eggs_def plan_def) auto
  have ts: "tasks ?s = [milk, eggs, plan]"
    by (simp add: tasks_def relational_state_def)
  have t: "tasks s' = [plan, eggs\<lparr>order := Some 0\<rparr>, milk\<lparr>order := Some 1\<rparr>]"
    if "reorderTasks Today [eggs, milk] ?s = Inr s'" for s'
  proof -
    from that have "tasks s' = filter (\<lambda>t. category t \<noteq> Today) (tasks ?s) @
        map (\<lambda>(index, t). t\<lparr>order := Some (int index)\<rparr>) (enumerate 0 [eggs, milk])"
      unfolding reorderTasks_result by (auto simp: tasks_setTasks_same tasks_setTasks_try_repo tasks_try_repo)
    also have "\<dots> = [plan, eggs\<lparr>order := Some 0\<rparr>, milk\<lparr>order := Some 1\<rparr>]"
      unfolding ts by (simp add: milk_def eggs_def plan_def enumerate_eq_zip)
    finally show ?thesis .
  qed
  from reorder_complete_list_dense [OF h, of ?s] obtain s' where
    r: "reorderTasks Today [eggs, milk] ?s = Inr s'" and m: "dense_tasks Today (tasks s')"
    and st: "\<forall>d. useDb ?s \<and> db ?s = Some d
                    \<and> distinct (map row_id (tasks_tbl d))
                    \<and> distinct (map task_id [eggs, milk])
                    \<and> set (map task_id [eggs, milk]) = row_id ` {r \<in> set (tasks_tbl d). row_category r = Today}
                  \<longrightarrow> (\<exists>d'. db s' = Some d' \<and> dense_rows Today (tasks_tbl d'))"
    by blast
  from st [rule_format, of ?d] u d pk dl eq obtain d' where
    "db s' = Some d'" "dense_rows Today (tasks_tbl d')"
    by blast
  moreover have "category eggs = Today \<and> category milk = Today"
    using h by simp
  ultimately show ?thesis
    using r m t [OF r] u pk dl by (simp del: distinct.simps list.map set_simps)
qed

subsection \<open>Migration\<close>

lemma insert_each_extends:
  "\<exists>d' xs. snd (insert_each ts (Some d)) = Some d' \<and> tasks_tbl d' = tasks_tbl d @ xs"
proof (induction ts arbitrary: d)
  case Nil
  show ?case by simp
next
  case (Cons t ts)
  show ?case
  proof (cases "task_id t \<in> set (map row_id (tasks_tbl d))")
    case True
    then show ?thesis by (simp add: insertTask_Some)
  next
    case False
    from Cons.IH [of "d\<lparr>tasks_tbl := tasks_tbl d @ [task_to_row t]\<rparr>"]
    show ?thesis using False by (auto simp: insertTask_Some)
  qed
qed

lemma insert_each_distinct:
  "distinct (map row_id (tasks_tbl d)) \<Longrightarrow> snd (insert_each ts (Some d)) = Some d' \<Longrightarrow>
     distinct (map row_id (tasks_tbl d'))"
proof (induction ts arbitrary: d)
  case Nil
  then show ?case by simp
next
  case (Cons t ts)
  show ?case
  proof (cases "task_id t \<in> set (map row_id (tasks_tbl d))")
    case True
    with Cons.prems show ?thesis by (simp add: insertTask_Some)
  next
    case False
    let ?d1 = "d\<lparr>tasks_tbl := tasks_tbl d @ [task_to_row t]\<rparr>"
    have "distinct (map row_id (tasks_tbl ?d1))"
      using False Cons.prems(1) by simp
    moreover have "snd (insert_each ts (Some ?d1)) = Some d'"
      using False Cons.prems(2) by (simp add: insertTask_Some)
    ultimately show ?thesis by (rule Cons.IH)
  qed
qed

lemma insert_each_all:
  "distinct (map task_id ts) \<Longrightarrow> set (map task_id ts) \<inter> set (map row_id (tasks_tbl d)) = {} \<Longrightarrow>
     insert_each ts (Some d) = (None, Some (d\<lparr>tasks_tbl := tasks_tbl d @ map task_to_row ts\<rparr>))"
proof (induction ts arbitrary: d)
  case Nil
  show ?case by simp
next
  case (Cons t ts)
  let ?d1 = "d\<lparr>tasks_tbl := tasks_tbl d @ [task_to_row t]\<rparr>"
  from Cons.prems have fresh: "task_id t \<notin> set (map row_id (tasks_tbl d))"
    by auto
  have "distinct (map task_id ts)"
    using Cons.prems(1) by simp
  moreover have "set (map task_id ts) \<inter> set (map row_id (tasks_tbl ?d1)) = {}"
    using Cons.prems by auto
  ultimately have "insert_each ts (Some ?d1)
      = (None, Some (?d1\<lparr>tasks_tbl := tasks_tbl ?d1 @ map task_to_row ts\<rparr>))"
    by (rule Cons.IH)
  then show ?case
    using fresh by (simp add: insertTask_Some)
qed

lemma insert_each_nonempty:
  assumes "ts \<noteq> []" and "tasks_tbl d = []" and "snd (insert_each ts (Some d)) = Some d'"
  shows "tasks_tbl d' \<noteq> []"
proof -
  obtain t rest where ts: "ts = t # rest"
    using assms(1) by (cases ts) auto
  let ?d1 = "d\<lparr>tasks_tbl := tasks_tbl d @ [task_to_row t]\<rparr>"
  have "snd (insert_each rest (Some ?d1)) = Some d'"
    using assms(2,3) by (simp add: ts insertTask_Some)
  with insert_each_extends [of rest ?d1] show ?thesis
    by auto
qed

lemma load_effect_keeps: "dbReady (load_effect s) = dbReady s" "localTasks (load_effect s) = localTasks s"
  by (auto simp: load_effect_def split: sum.splits prod.splits option.splits)

lemma load_effect_skip:
  assumes "db s = Some d" and "tasks_tbl d \<noteq> [] \<or> localTasks s = []"
  shows "db (load_effect s) = db s"
  using assms
  by (auto simp: load_effect_def getAllTasks_Some split: sum.splits prod.splits option.splits)

lemma load_effect_not_ready:
  "\<not> dbReady s \<or> db s = None \<Longrightarrow> load_effect s = s"
  by (auto simp: load_effect_def isDatabaseInitialized_def)

lemma load_effect_migrates:
  assumes "dbReady s" and "db s = Some d" and "tasks_tbl d = []" and "localTasks s \<noteq> []"
  shows "db (load_effect s) = snd (insert_each (localTasks s) (Some d))"
  using assms
  by (auto simp: load_effect_def isDatabaseInitialized_def getAllTasks_Some
      split: sum.splits prod.splits option.splits)

lemma load_effect_db_Some:
  assumes "db s = Some d"
  shows "\<exists>d'. db (load_effect s) = Some d'
           \<and> (tasks_tbl d \<noteq> [] \<longrightarrow> d' = d)
           \<and> (dbReady s \<and> tasks_tbl d = [] \<and> localTasks s \<noteq> [] \<longrightarrow> tasks_tbl d' \<noteq> [])
           \<and> (distinct (map row_id (tasks_tbl d)) \<longrightarrow> distinct (map row_id (tasks_tbl d')))"
proof (cases "dbReady s \<and> tasks_tbl d = [] \<and> localTasks s \<noteq> []")
  case True
  then have m: "db (load_effect s) = snd (insert_each (localTasks s) (Some d))"
    using assms by (simp add: load_effect_migrates)
  from insert_each_extends [of "localTasks s" d] obtain d' where
    d': "snd (insert_each (localTasks s) (Some d)) = Some d'"
    by blast
  have "tasks_tbl d' \<noteq> []"
    using True d' by (intro insert_each_nonempty [of "localTasks s" d d']) simp_all
  moreover have "distinct (map row_id (tasks_tbl d'))"
    using True d' by (intro insert_each_distinct [of d "localTasks s" d']) simp_all
  ultimately show ?thesis
    using m d' True by simp
next
  case False
  have "db (load_effect s) = db s"
  proof (cases "dbReady s")
    case True
    with False have "tasks_tbl d \<noteq> [] \<or> localTasks s = []" by blast
    with assms show ?thesis by (rule load_effect_skip)
  next
    case False
    then show ?thesis by (simp add: load_effect_not_ready)
  qed
  with assms False show ?thesis by auto
qed

lemma load_effect_twice_db: "db (load_effect (load_effect s)) = db (load_effect s)"
proof (cases "db s")
  case None
  then show ?thesis by (simp add: load_effect_not_ready)
next
  case (Some d)
  from load_effect_db_Some [OF Some] obtain d' where
    d': "db (load_effect s) = Some d'"
    and ne: "dbReady s \<and> tasks_tbl d = [] \<and> localTasks s \<noteq> [] \<longrightarrow> tasks_tbl d' \<noteq> []"
    and same: "tasks_tbl d \<noteq> [] \<longrightarrow> d' = d"
    by blast
  show ?thesis
  proof (cases "dbReady s")
    case False
    then show ?thesis by (simp add: load_effect_not_ready)
  next
    case True
    have "tasks_tbl d' \<noteq> [] \<or> localTasks (load_effect s) = []"
      using ne same True by (cases "tasks_tbl d = []") (auto simp: load_effect_keeps)
    with d' show ?thesis by (rule load_effect_skip)
  qed
qed

text \<open>
  C7. The load effect leaves the relational store as it is whenever the \<^verbatim>\<open>tasks\<close> table
  already has a row. Running it a second time never changes the store again, and row ids
  that were distinct stay distinct, so no row is duplicated. When the database is ready,
  the table is empty and the durable store holds tasks (with distinct ids, as the data
  model has them), the table afterwards holds the row of every one of them, in the
  order of the durable store.
\<close>

theorem migration_once:
  "(\<forall>d. db s = Some d \<and> tasks_tbl d \<noteq> [] \<longrightarrow> db (load_effect s) = db s)
   \<and> db (load_effect (load_effect s)) = db (load_effect s)
   \<and> (\<forall>d. db s = Some d \<and> distinct (map row_id (tasks_tbl d))
          \<longrightarrow> (\<exists>d'. db (load_effect (load_effect s)) = Some d'
                     \<and> distinct (map row_id (tasks_tbl d'))))
   \<and> (\<forall>d. dbReady s \<and> db s = Some d \<and> tasks_tbl d = [] \<and> localTasks s \<noteq> []
            \<and> distinct (map task_id (localTasks s))
          \<longrightarrow> (\<exists>d'. db (load_effect s) = Some d'
                     \<and> tasks_tbl d' = map task_to_row (localTasks s)))"
proof (intro conjI allI impI)
  fix d
  assume "db s = Some d \<and> tasks_tbl d \<noteq> []"
  then show "db (load_effect s) = db s"
    by (simp add: load_effect_skip)
next
  show "db (load_effect (load_effect s)) = db (load_effect s)"
    by (rule load_effect_twice_db)
next
  fix d
  assume a: "db s = Some d \<and> distinct (map row_id (tasks_tbl d))"
  then obtain d' where "db (load_effect s) = Some d'" "distinct (map row_id (tasks_tbl d'))"
    using load_effect_db_Some [of s d] by blast
  then show "\<exists>d'. db (load_effect (load_effect s)) = Some d' \<and> distinct (map row_id (tasks_tbl d'))"
    by (simp add: load_effect_twice_db)
next
  fix d
  assume a: "dbReady s \<and> db s = Some d \<and> tasks_tbl d = [] \<and> localTasks s \<noteq> []
            \<and> distinct (map task_id (localTasks s))"
  then have "db (load_effect s) = snd (insert_each (localTasks s) (Some d))"
    by (simp add: load_effect_migrates)
  moreover have "insert_each (localTasks s) (Some d)
      = (None, Some (d\<lparr>tasks_tbl := tasks_tbl d @ map task_to_row (localTasks s)\<rparr>))"
    using a by (intro insert_each_all) simp_all
  ultimately show "\<exists>d'. db (load_effect s) = Some d' \<and> tasks_tbl d' = map task_to_row (localTasks s)"
    using a by simp
qed

theorem migration_once_witness:
  "dbReady (ready_state [milk, eggs])
   \<and> db (ready_state [milk, eggs]) = Some createTables
   \<and> tasks_tbl createTables = []
   \<and> distinct (map task_id (localTasks (ready_state [milk, eggs])))
   \<and> db (load_effect (ready_state [milk, eggs]))
       = Some \<lparr>tasks_tbl = [task_to_row milk, task_to_row eggs], projects_tbl = []\<rparr>
   \<and> db (load_effect (load_effect (ready_state [milk, eggs])))
       = Some \<lparr>tasks_tbl = [task_to_row milk, task_to_row eggs], projects_tbl = []\<rparr>"
proof -
  let ?s = "ready_state [milk, eggs]"
  have h: "dbReady ?s" "db ?s = Some createTables" "tasks_tbl createTables = []"
    "localTasks ?s \<noteq> []" "distinct (map task_id (localTasks ?s))"
    by (simp_all add: ready_state_def createTables_def milk_def eggs_def)
  from migration_once [of ?s] have
    twice: "db (load_effect (load_effect ?s)) = db (load_effect ?s)"
    and full: "\<forall>d. dbReady ?s \<and> db ?s = Some d \<and> tasks_tbl d = [] \<and> localTasks ?s \<noteq> []
            \<and> distinct (map task_id (localTasks ?s))
          \<longrightarrow> (\<exists>d'. db (load_effect ?s) = Some d'
                     \<and> tasks_tbl d' = map task_to_row (localTasks ?s))"
    by blast+
  from full [rule_format, of createTables] h obtain d' where
    d': "db (load_effect ?s) = Some d'" "tasks_tbl d' = map task_to_row (localTasks ?s)"
    by blast
  have "\<exists>rows. db (load_effect ?s) = Some \<lparr>tasks_tbl = rows, projects_tbl = []\<rparr>"
    by (simp add: load_effect_def ready_state_def createTables_def
        isDatabaseInitialized_def getAllTasks_Some insertTask_Some milk_def eggs_def)
  with d' have "db (load_effect ?s)
      = Some \<lparr>tasks_tbl = [task_to_row milk, task_to_row eggs], projects_tbl = []\<rparr>"
    by (auto simp: ready_state_def)
  with twice h show ?thesis by simp
qed

subsection \<open>Round trip through the relational store\<close>

lemma row_to_task_to_row:
  "row_to_task (task_to_row t)
     = t\<lparr>projectId := or_null (projectId t), dueDate := or_null (dueDate t), dueTime := None,
         isRecurring := None, lastCompletedAt := None, order := Some (or_zero (order t))\<rparr>"
  by (simp add: row_to_task_def task_to_row_def)

lemma insert_then_getAllTasks:
  assumes "task_id t \<notin> set (map row_id (tasks_tbl d))"
  shows "\<exists>d' ts. taskRepo_insertTask t (Some d) = Inr (Some d')
           \<and> taskRepo_getAllTasks (Some d') = Inr ts
           \<and> row_to_task (task_to_row t) \<in> set ts"
  using assms by (simp add: insertTask_Some getAllTasks_Some)

text \<open>
  C1 fails on the code. Inserting the recurring task \<open>stretch\<close> into a fresh store
  succeeds, and both \<^verbatim>\<open>getAllTasks\<close> and \<^verbatim>\<open>getTasksByCategory\<close> then return it without
  its \<open>dueTime\<close>, \<open>isRecurring\<close> and \<open>lastCompletedAt\<close>: the task read back differs
  from the task inserted. (\<open>row_to_task_to_row\<close> above says what is read back in
  general: the nine stored fields.)
\<close>

theorem round_trip_loses_recurring_fields:
  "taskRepo_insertTask stretch (Some createTables)
     = Inr (Some \<lparr>tasks_tbl = [task_to_row stretch], projects_tbl = []\<rparr>)
   \<and> taskRepo_getAllTasks (Some \<lparr>tasks_tbl = [task_to_row stretch], projects_tbl = []\<rparr>)
     = Inr [stretch\<lparr>dueTime := None, isRecurring := None, lastCompletedAt := None\<rparr>]
   \<and> taskRepo_getTasksByCategory Today (Some \<lparr>tasks_tbl = [task_to_row stretch], projects_tbl = []\<rparr>)
     = Inr [stretch\<lparr>dueTime := None, isRecurring := None, lastCompletedAt := None\<rparr>]
   \<and> stretch\<lparr>dueTime := None, isRecurring := None, lastCompletedAt := None\<rparr> \<noteq> stretch"
proof -
  have r: "row_to_task (task_to_row stretch)
             = stretch\<lparr>dueTime := None, isRecurring := None, lastCompletedAt := None\<rparr>"
    by (simp add: row_to_task_to_row) (simp add: stretch_def or_null_def or_zero_def truthy_str_def)
  have a: "taskRepo_insertTask stretch (Some createTables)
     = Inr (Some \<lparr>tasks_tbl = [task_to_row stretch], projects_tbl = []\<rparr>)"
    by (simp add: insertTask_Some createTables_def)
  have b: "taskRepo_getAllTasks (Some \<lparr>tasks_tbl = [task_to_row stretch], projects_tbl = []\<rparr>)
     = Inr [stretch\<lparr>dueTime := None, isRecurring := None, lastCompletedAt := None\<rparr>]"
    by (simp add: getAllTasks_Some r)
  have c: "taskRepo_getTasksByCategory Today (Some \<lparr>tasks_tbl = [task_to_row stretch], projects_tbl = []\<rparr>)
     = Inr [stretch\<lparr>dueTime := None, isRecurring := None, lastCompletedAt := None\<rparr>]"
    by (simp add: taskRepo_getTasksByCategory_def getDatabase_def r)
       (simp add: task_to_row_def stretch_def)
  have d: "stretch\<lparr>dueTime := None, isRecurring := None, lastCompletedAt := None\<rparr> \<noteq> stretch"
    by (simp add: stretch_def)
  from a b c d show ?thesis by blast
qed

end
